theory Spec2Isabelle
  imports Complex_Main "HOL-Library.Word" "HOL-Library.Log_Nat"
begin

section \<open>Python exceptions and containers\<close>

text \<open>
  Every exception the modelled code can raise is a value of \<open>error\<close>; a function that can
  raise returns \<open>error + 'a\<close> with \<open>Inl\<close> for the exception.
\<close>

datatype error =
    IndexError
  | AttributeError
  | TypeError
  | KeyError
  | ZeroDivisionError
  | AssertionError
  | StructError
  | UnicodeDecodeError
  | DecryptionFailed
  | ValueError
  | OverflowError

fun bindE :: "error + 'a \<Rightarrow> ('a \<Rightarrow> error + 'b) \<Rightarrow> error + 'b" where
  "bindE (Inl e) f = Inl e"
| "bindE (Inr x) f = f x"

text \<open>\<open>xs[i]\<close> for a non-negative index: IndexError out of range.\<close>

definition list_get :: "'a list \<Rightarrow> nat \<Rightarrow> error + 'a" where
  "list_get xs i = (if i < length xs then Inr (xs ! i) else Inl IndexError)"

section \<open>Python floats\<close>

text \<open>
  Milliseconds, tempos and tick intervals are Python floats: IEEE 754 binary64 numbers.
  A float is a finite number (kept as the rational it denotes), an infinity or NaN; the
  sign of a zero is dropped, since no operation of the modelled code tells \<open>-0.0\<close> from
  \<open>0.0\<close> (a division by either raises).  Every arithmetic operation computes the exact
  result and rounds it to the nearest double, ties to even.
\<close>

datatype pyfloat = Finite rat | PInf | NInf | NaN

definition pow2 :: "int \<Rightarrow> rat" where
  "pow2 q = 2 powi q"

text \<open>
  The doubles near a positive \<open>x\<close> are the multiples of \<open>2 ^ q\<close>, where \<open>q\<close> is the exponent
  with \<open>2 ^ (q + 52) \<le> x < 2 ^ (q + 53)\<close>, or \<open>- 1074\<close> for a subnormal \<open>x\<close>;
  \<open>good_exponent q x\<close> says that \<open>q\<close> is this exponent.  \<open>ulp_exponent\<close> computes it: a guess
  from the bit lengths of numerator and denominator, checked, with a search from the
  smallest exponent behind it.
\<close>

definition good_exponent :: "int \<Rightarrow> rat \<Rightarrow> bool" where
  "good_exponent q x =
     (- 1074 \<le> q \<and> x < pow2 (q + 53) \<and> (q = - 1074 \<or> pow2 (q + 52) \<le> x))"

fun search_exponent :: "nat \<Rightarrow> int \<Rightarrow> rat \<Rightarrow> int" where
  "search_exponent 0 q x = q"
| "search_exponent (Suc n) q x =
     (if x < pow2 (q + 53) then q else search_exponent n (q + 1) x)"

definition guess_exponent :: "rat \<Rightarrow> int" where
  "guess_exponent x =
     (case quotient_of x of
        (n, d) \<Rightarrow> int (floorlog 2 (nat n)) - int (floorlog 2 (nat d)) - 53)"

definition ulp_exponent :: "rat \<Rightarrow> int" where
  "ulp_exponent x =
     (let g = max (guess_exponent x) (- 1074)
      in if good_exponent g x then g
         else if good_exponent (g + 1) x then g + 1
         else search_exponent 2200 (- 1074) x)"

definition round_half_even :: "rat \<Rightarrow> int" where
  "round_half_even m =
     (let f = \<lfloor>m\<rfloor>; r = m - of_int f
      in if r < 1 / 2 then f
         else if 1 / 2 < r then f + 1
         else if even f then f else f + 1)"

text \<open>
  The largest double is \<open>2 ^ 1024 - 2 ^ 971\<close>; a number half a unit in the last place above
  it, or more, rounds to infinity.
\<close>

definition overflow_threshold :: rat where
  "overflow_threshold = pow2 1024 - pow2 970"

definition round_positive :: "rat \<Rightarrow> pyfloat" where
  "round_positive x =
     (if overflow_threshold \<le> x then PInf
      else let q = ulp_exponent x
           in Finite (of_int (round_half_even (x / pow2 q)) * pow2 q))"

fun fneg :: "pyfloat \<Rightarrow> pyfloat" where
  "fneg (Finite x) = Finite (- x)"
| "fneg PInf = NInf"
| "fneg NInf = PInf"
| "fneg NaN = NaN"

definition round_double :: "rat \<Rightarrow> pyfloat" where
  "round_double x =
     (if x = 0 then Finite 0
      else if 0 < x then round_positive x
      else fneg (round_positive (- x)))"

text \<open>\<open>a + b\<close>, \<open>a - b\<close>, \<open>a * b\<close> and \<open>abs(a)\<close>.\<close>

fun fadd :: "pyfloat \<Rightarrow> pyfloat \<Rightarrow> pyfloat" where
  "fadd (Finite a) (Finite b) = round_double (a + b)"
| "fadd NaN b = NaN"
| "fadd a NaN = NaN"
| "fadd PInf NInf = NaN"
| "fadd NInf PInf = NaN"
| "fadd PInf b = PInf"
| "fadd a PInf = PInf"
| "fadd NInf b = NInf"
| "fadd a NInf = NInf"

definition fsub :: "pyfloat \<Rightarrow> pyfloat \<Rightarrow> pyfloat" where
  "fsub a b = fadd a (fneg b)"

text \<open>The sign of a float: \<open>Some True\<close> positive, \<open>Some False\<close> negative, \<open>None\<close> zero or NaN.\<close>

fun fsign :: "pyfloat \<Rightarrow> bool option" where
  "fsign (Finite x) = (if x = 0 then None else Some (0 < x))"
| "fsign PInf = Some True"
| "fsign NInf = Some False"
| "fsign NaN = None"

definition signed_inf :: "bool \<Rightarrow> pyfloat" where
  "signed_inf positive = (if positive then PInf else NInf)"

definition fmul :: "pyfloat \<Rightarrow> pyfloat \<Rightarrow> pyfloat" where
  "fmul a b =
     (case (a, b) of
        (Finite x, Finite y) \<Rightarrow> round_double (x * y)
      | _ \<Rightarrow>
          (case (fsign a, fsign b) of
             (Some sa, Some sb) \<Rightarrow> signed_inf (sa = sb)
           | _ \<Rightarrow> NaN))"

fun fabs :: "pyfloat \<Rightarrow> pyfloat" where
  "fabs (Finite x) = Finite \<bar>x\<bar>"
| "fabs PInf = PInf"
| "fabs NInf = PInf"
| "fabs NaN = NaN"

text \<open>
  \<open>a / b\<close>: Python raises ZeroDivisionError on a zero divisor, whatever the dividend;
  the other cases are those of IEEE 754.
\<close>

fun fdiv :: "pyfloat \<Rightarrow> pyfloat \<Rightarrow> error + pyfloat" where
  "fdiv a (Finite b) =
     (if b = 0 then Inl ZeroDivisionError
      else Inr (case a of
                  Finite x \<Rightarrow> round_double (x / b)
                | PInf \<Rightarrow> signed_inf (0 < b)
                | NInf \<Rightarrow> signed_inf (b < 0)
                | NaN \<Rightarrow> NaN))"
| "fdiv a NaN = Inr NaN"
| "fdiv (Finite x) b = Inr (Finite 0)"
| "fdiv a b = Inr NaN"

text \<open>\<open>a < b\<close> and \<open>a <= b\<close>; \<open>a > b\<close> is \<open>flt b a\<close>.  Every comparison with NaN is false.\<close>

fun flt :: "pyfloat \<Rightarrow> pyfloat \<Rightarrow> bool" where
  "flt (Finite a) (Finite b) = (a < b)"
| "flt NaN b = False"
| "flt a NaN = False"
| "flt PInf b = False"
| "flt a NInf = False"
| "flt a PInf = True"
| "flt NInf b = True"

fun fle :: "pyfloat \<Rightarrow> pyfloat \<Rightarrow> bool" where
  "fle (Finite a) (Finite b) = (a \<le> b)"
| "fle NaN b = False"
| "fle a NaN = False"
| "fle a PInf = True"
| "fle NInf b = True"
| "fle PInf b = False"
| "fle a NInf = False"

text \<open>\<open>a == b\<close> on floats: NaN is equal to nothing, itself included.\<close>

definition feq :: "pyfloat \<Rightarrow> pyfloat \<Rightarrow> bool" where
  "feq a b = (a = b \<and> a \<noteq> NaN)"

text \<open>
  \<open>int(x)\<close> of a float truncates towards zero; it raises ValueError on NaN and
  OverflowError on an infinity.
\<close>

fun py_int :: "pyfloat \<Rightarrow> error + int" where
  "py_int (Finite x) = Inr (if 0 \<le> x then \<lfloor>x\<rfloor> else \<lceil>x\<rceil>)"
| "py_int NaN = Inl ValueError"
| "py_int PInf = Inl OverflowError"
| "py_int NInf = Inl OverflowError"

text \<open>
  A Python \<open>int\<close> that meets a float in an operation or a comparison.  The model keeps its
  exact value: Python compares an int with a float exactly, and converts it to a double
  before an arithmetic operation, which changes nothing below \<open>2 ^ 53\<close> (the ints of the
  modelled code are millisecond clocks, tick counts and small constants).  \<open>n / m\<close> on two
  ints is the correctly rounded quotient, which is \<open>fdiv\<close> on the exact values.
\<close>

definition float_of_int :: "int \<Rightarrow> pyfloat" where
  "float_of_int n = Finite (of_int n)"

section \<open>Chart data (ptfile.py)\<close>

text \<open>
  The type parameter \<open>'f\<close> is the representation of the 32-bit floats of the file: the
  decoder keeps their bit pattern, the engine works on the Python floats they denote.
\<close>

datatype 'f PTFileNoteParams =
    PTFileGeneralNoteParams (sound_index: nat) (volume: nat) (pan: nat) (attribute: nat) (duration: nat)
  | PTFileVolumeNoteParams nat
  | PTFileBPMChangeNoteParams 'f
  | PTFileBeatNoteParams nat

datatype PTFileCommandType = GENERAL | VOLUME | BPM | BEAT

fun get_command_type :: "'f PTFileNoteParams \<Rightarrow> PTFileCommandType" where
  "get_command_type (PTFileGeneralNoteParams si v p a d) = GENERAL"
| "get_command_type (PTFileVolumeNoteParams v) = VOLUME"
| "get_command_type (PTFileBPMChangeNoteParams t) = BPM"
| "get_command_type (PTFileBeatNoteParams b) = BEAT"

text \<open>
  \<open>PTFileNote.command_type\<close> is stored next to \<open>params\<close> in the source; the decoder
  always builds the two from the same byte, so the model reads it off the parameters.
\<close>

record 'f PTFileNote =
  position :: nat
  params :: "'f PTFileNoteParams"

definition command_type :: "'f PTFileNote \<Rightarrow> PTFileCommandType" where
  "command_type n = get_command_type (params n)"

text \<open>A Python \<open>str\<close> is its list of code points.\<close>

type_synonym py_str = "nat list"

record 'f PTFileTrack =
  track_name :: py_str
  ticks :: nat
  track_notes :: "'f PTFileNote list"

section \<open>Chart decoder (ptfile.py, PTFile.parse)\<close>

type_synonym byte = "8 word"

record 'f PTFileHeader =
  version_major :: nat
  version_minor :: nat
  header_ticks_per_measure :: nat
  master_bpm :: 'f
  number_of_tracks :: nat
  header_total_ticks :: nat
  time_in_seconds :: 'f
  number_of_sounds :: nat

record PTFileSound =
  index :: nat
  command :: nat
  filename :: py_str

record 'f PTFile =
  header :: "'f PTFileHeader"
  sounds :: "PTFileSound list"
  tracks :: "'f PTFileTrack list"

text \<open>Little-endian unsigned integers (\<open><B\<close>, \<open><H\<close>, \<open><I\<close>); a float keeps its 32 bits.\<close>

fun le_nat :: "byte list \<Rightarrow> nat" where
  "le_nat [] = 0"
| "le_nat (b # bs) = unat b + 256 * le_nat bs"

definition slice :: "nat \<Rightarrow> nat \<Rightarrow> 'a list \<Rightarrow> 'a list" where
  "slice start stop xs = take (stop - start) (drop start xs)"

definition le_float :: "byte list \<Rightarrow> 32 word" where
  "le_float bs = word_of_nat (le_nat bs)"

text \<open>
  \<open>struct.unpack_from(format, buffer, offset)\<close> raises \<open>struct.error\<close> unless the buffer
  holds \<open>calcsize(format)\<close> bytes from the offset; the model returns these bytes and the
  callers below cut the fields out of them.
\<close>

definition unpack_from :: "nat \<Rightarrow> byte list \<Rightarrow> nat \<Rightarrow> error + byte list" where
  "unpack_from n buf off =
     (if off + n \<le> length buf then Inr (take n (drop off buf))
      else Inl StructError)"

record SequentialUnpacker =
  buffer :: "byte list"
  offset :: nat

definition unpack :: "nat \<Rightarrow> SequentialUnpacker \<Rightarrow> error + (byte list \<times> SequentialUnpacker)" where
  "unpack n u =
     bindE (unpack_from n (buffer u) (offset u)) (\<lambda>bs.
       Inr (bs, u\<lparr>offset := offset u + n\<rparr>))"

text \<open>\<open>bytes.partition(b"\\0")[0]\<close>: the bytes before the first zero byte.\<close>

definition partition_nul :: "byte list \<Rightarrow> byte list" where
  "partition_nul bs = takeWhile (\<lambda>b. b \<noteq> 0) bs"

text \<open>
  \<open>bytes.decode()\<close>: strict UTF-8.  Anything but a well-formed sequence (shortest form, no
  surrogates, at most U+10FFFF) raises UnicodeDecodeError.
\<close>

definition cont :: "nat \<Rightarrow> bool" where
  "cont b = (128 \<le> b \<and> b \<le> 191)"

fun utf8 :: "nat list \<Rightarrow> error + py_str" where
  "utf8 [] = Inr []"
| "utf8 (a # bs) =
     (if a < 128 then bindE (utf8 bs) (\<lambda>cs. Inr (a # cs))
      else if 194 \<le> a \<and> a \<le> 223 then
        (case bs of
           b # r \<Rightarrow>
             if cont b
             then bindE (utf8 r) (\<lambda>cs. Inr (((a - 192) * 64 + (b - 128)) # cs))
             else Inl UnicodeDecodeError
         | _ \<Rightarrow> Inl UnicodeDecodeError)
      else if 224 \<le> a \<and> a \<le> 239 then
        (case bs of
           b # c # r \<Rightarrow>
             if cont b \<and> cont c \<and> (a = 224 \<longrightarrow> 160 \<le> b) \<and> (a = 237 \<longrightarrow> b \<le> 159)
             then bindE (utf8 r) (\<lambda>cs.
                    Inr (((a - 224) * 4096 + (b - 128) * 64 + (c - 128)) # cs))
             else Inl UnicodeDecodeError
         | _ \<Rightarrow> Inl UnicodeDecodeError)
      else if 240 \<le> a \<and> a \<le> 244 then
        (case bs of
           b # c # d # r \<Rightarrow>
             if cont b \<and> cont c \<and> cont d \<and> (a = 240 \<longrightarrow> 144 \<le> b) \<and> (a = 244 \<longrightarrow> b \<le> 143)
             then bindE (utf8 r) (\<lambda>cs.
                    Inr (((a - 240) * 262144 + (b - 128) * 4096 + (c - 128) * 64 + (d - 128)) # cs))
             else Inl UnicodeDecodeError
         | _ \<Rightarrow> Inl UnicodeDecodeError)
      else Inl UnicodeDecodeError)"

definition decode :: "byte list \<Rightarrow> error + py_str" where
  "decode bs = utf8 (map unat bs)"

definition is_encrypted :: "byte list \<Rightarrow> error + bool" where
  "is_encrypted buf =
     bindE (unpack_from 2 buf 24) (\<lambda>bs.
       let first_song_index = le_nat bs in Inr (first_song_index \<noteq> 1))"

definition PTFF :: "byte list" where
  "PTFF = [80, 84, 70, 70]"

definition EZTR :: "byte list" where
  "EZTR = [69, 90, 84, 82]"

text \<open>Header, format \<open><4sBBHfHIfH\<close> (24 bytes), then \<open>assert ptff == b"PTFF"\<close>.\<close>

definition parse_header ::
  "SequentialUnpacker \<Rightarrow> error + (32 word PTFileHeader \<times> SequentialUnpacker)" where
  "parse_header u =
     bindE (unpack 24 u) (\<lambda>(bs, u').
       if slice 0 4 bs \<noteq> PTFF then Inl AssertionError
       else Inr (\<lparr>version_major = le_nat (slice 4 5 bs),
                  version_minor = le_nat (slice 5 6 bs),
                  header_ticks_per_measure = le_nat (slice 6 8 bs),
                  master_bpm = le_float (slice 8 12 bs),
                  number_of_tracks = le_nat (slice 12 14 bs),
                  header_total_ticks = le_nat (slice 14 18 bs),
                  time_in_seconds = le_float (slice 18 22 bs),
                  number_of_sounds = le_nat (slice 22 24 bs)\<rparr>, u'))"

text \<open>One sound entry, format \<open><HH64s\<close> (68 bytes).\<close>

definition parse_sound :: "SequentialUnpacker \<Rightarrow> error + (PTFileSound \<times> SequentialUnpacker)" where
  "parse_sound u =
     bindE (unpack 68 u) (\<lambda>(bs, u').
     bindE (decode (partition_nul (slice 4 68 bs))) (\<lambda>name.
       Inr (\<lparr>index = le_nat (slice 0 2 bs), command = le_nat (slice 2 4 bs),
             filename = name\<rparr>, u')))"

text \<open>
  One note, format \<open><IBxxx8s\<close> (16 bytes); the 8 parameter bytes are read by
  \<open><HBBBHx\<close>, \<open><Bxxxxxxx\<close>, \<open><fxxxx\<close> or \<open><Hxxxxxx\<close>.
\<close>

definition parse_note ::
  "SequentialUnpacker \<Rightarrow> error + (32 word PTFileNote \<times> SequentialUnpacker)" where
  "parse_note u =
     bindE (unpack 16 u) (\<lambda>(bs, u').
       let pos = le_nat (slice 0 4 bs);
           ct = le_nat (slice 4 5 bs);
           ps = slice 8 16 bs
       in if ct = 1 then
            Inr (\<lparr>position = pos,
                  params = PTFileGeneralNoteParams (le_nat (slice 0 2 ps)) (le_nat (slice 2 3 ps))
                             (le_nat (slice 3 4 ps)) (le_nat (slice 4 5 ps))
                             (le_nat (slice 5 7 ps))\<rparr>, u')
          else if ct = 2 then
            Inr (\<lparr>position = pos,
                  params = PTFileVolumeNoteParams (le_nat (slice 0 1 ps))\<rparr>, u')
          else if ct = 3 then
            Inr (\<lparr>position = pos,
                  params = PTFileBPMChangeNoteParams (le_float (slice 0 4 ps))\<rparr>, u')
          else if ct = 4 then
            Inr (\<lparr>position = pos,
                  params = PTFileBeatNoteParams (le_nat (slice 0 2 ps))\<rparr>, u')
          else Inl TypeError)"

text \<open>\<open>for i in range(n): ...; entries.append(entry)\<close> for a reader of one entry.\<close>

fun parse_entries ::
  "(SequentialUnpacker \<Rightarrow> error + ('a \<times> SequentialUnpacker)) \<Rightarrow> nat \<Rightarrow> SequentialUnpacker
     \<Rightarrow> error + ('a list \<times> SequentialUnpacker)" where
  "parse_entries parse_entry 0 u = Inr ([], u)"
| "parse_entries parse_entry (Suc n) u =
     (case parse_entry u of
        Inl e \<Rightarrow> Inl e
      | Inr (x, u') \<Rightarrow>
          (case parse_entries parse_entry n u' of
             Inl e \<Rightarrow> Inl e
           | Inr (xs, u'') \<Rightarrow> Inr (x # xs, u'')))"

text \<open>
  One track: the record \<open><4sxx64sIIxx\<close> (80 bytes), \<open>assert eztr == b"EZTR"\<close>, then
  \<open>size_of_data // 16\<close> notes.
\<close>

definition parse_track ::
  "SequentialUnpacker \<Rightarrow> error + (32 word PTFileTrack \<times> SequentialUnpacker)" where
  "parse_track u =
     bindE (unpack 80 u) (\<lambda>(bs, u').
       if slice 0 4 bs \<noteq> EZTR then Inl AssertionError
       else
         bindE (decode (partition_nul (slice 6 70 bs))) (\<lambda>name.
           let tk = le_nat (slice 70 74 bs);
               size_of_data = le_nat (slice 74 78 bs);
               number_of_notes = size_of_data div 16
           in bindE (parse_entries parse_note number_of_notes u') (\<lambda>(note_entries, u'').
                Inr (\<lparr>track_name = name, ticks = tk, track_notes = note_entries\<rparr>, u''))))"

definition parse_structure :: "byte list \<Rightarrow> error + 32 word PTFile" where
  "parse_structure buf =
     bindE (parse_header \<lparr>buffer = buf, offset = 0\<rparr>) (\<lambda>(h, u1).
     bindE (parse_entries parse_sound (number_of_sounds h) u1) (\<lambda>(sound_entries, u2).
     bindE (parse_entries parse_track (number_of_tracks h) u2) (\<lambda>(track_entries, u3).
       Inr \<lparr>header = h, sounds = sound_entries, tracks = track_entries\<rparr>)))"

text \<open>
  \<open>PTFile.parse\<close> on a \<open>bytes\<close> argument.  The decryption gateway
  (\<open>CachedPTFileDecryptor.decrypt_ptfile\<close>, a remote service with a file cache) is the
  parameter \<open>gateway\<close>; the first component of the result lists the buffers handed to it.
\<close>

definition parse ::
  "(byte list \<Rightarrow> error + byte list) \<Rightarrow> byte list \<Rightarrow> byte list list \<times> (error + 32 word PTFile)" where
  "parse gateway buf =
     (case is_encrypted buf of
        Inl e \<Rightarrow> ([], Inl e)
      | Inr encrypted \<Rightarrow>
          if encrypted then ([buf], bindE (gateway buf) parse_structure)
          else ([], parse_structure buf))"

text \<open>
  The decoder has no exception class of its own.  What the specification calls
  FormatError is what the decoder raises on purpose: the failed assertion on a magic
  and the TypeError for an unsupported command type.
\<close>

definition is_FormatError :: "error \<Rightarrow> bool" where
  "is_FormatError e = (e = AssertionError \<or> e = TypeError)"


text \<open>
  The Python float that \<open>struct.unpack\<close> returns for the 32 bits of an \<open>f\<close> field: sign,
  8 bits of exponent, 23 bits of fraction.  Every such number is a double.
\<close>

definition float_of_bits :: "32 word \<Rightarrow> pyfloat" where
  "float_of_bits w =
     (let negative = bit w 31;
          e = unat (take_bit 8 (drop_bit 23 w));
          m = unat (take_bit 23 w);
          sign = (if negative then - 1 else 1)
      in if e = 255 then (if m = 0 then signed_inf (\<not> negative) else NaN)
         else if e = 0 then Finite (sign * of_nat m * pow2 (- 149))
         else Finite (sign * of_nat (2 ^ 23 + m) * pow2 (int e - 150)))"

text \<open>The chart as the Python object the engine receives.\<close>

definition note_floats :: "32 word PTFileNote \<Rightarrow> pyfloat PTFileNote" where
  "note_floats n =
     \<lparr>position = position n, params = map_PTFileNoteParams float_of_bits (params n)\<rparr>"

definition track_floats :: "32 word PTFileTrack \<Rightarrow> pyfloat PTFileTrack" where
  "track_floats tr =
     \<lparr>track_name = track_name tr, ticks = ticks tr,
      track_notes = map note_floats (track_notes tr)\<rparr>"

definition header_floats :: "32 word PTFileHeader \<Rightarrow> pyfloat PTFileHeader" where
  "header_floats h =
     \<lparr>version_major = version_major h, version_minor = version_minor h,
      header_ticks_per_measure = header_ticks_per_measure h,
      master_bpm = float_of_bits (master_bpm h),
      number_of_tracks = number_of_tracks h,
      header_total_ticks = header_total_ticks h,
      time_in_seconds = float_of_bits (time_in_seconds h),
      number_of_sounds = number_of_sounds h\<rparr>"

definition ptfile_floats :: "32 word PTFile \<Rightarrow> pyfloat PTFile" where
  "ptfile_floats f =
     \<lparr>header = header_floats (header f), sounds = sounds f,
      tracks = map track_floats (tracks f)\<rparr>"

section \<open>Judgment of one note (dwax_game.py, GameNote)\<close>

datatype GameNotePlayResultType = MAX100 | MAX90 | MAX1 | BREAK

datatype GameNotePlayResultFailReason =
  TOO_LATE_TO_START | TOO_LATE_TO_FINISH | TOO_EARLY_TO_FINISH

record GameNotePlayResult =
  result_type :: "GameNotePlayResultType option"
  timing_diff :: "pyfloat option"
  reason :: "GameNotePlayResultFailReason option"

text \<open>
  The fields of a \<open>GameNote\<close> that the timeline build and judgment read and write.
  \<open>played_millis_per_tick\<close> is the table the sequence player hands to every note after
  the timeline build.  \<open>sound_duration_millis\<close> stands for the note's \<open>Sound\<close> object, of
  which only \<open>get_length() * 1000\<close> is read; it is \<open>None\<close> for a note without a sound.
\<close>

record GameNote =
  ptnote :: "pyfloat PTFileNote"
  sound_duration_millis :: "pyfloat option"
  played_millis_per_tick :: "pyfloat list"
  unit_judge_millis :: int
  note_is_playing :: bool
  note_is_played :: bool
  note_result_type :: "GameNotePlayResultType option"
  note_play_result :: "GameNotePlayResult option"

definition is_general :: "GameNote \<Rightarrow> bool" where
  "is_general g = (command_type (ptnote g) = GENERAL)"

definition is_bpm_change :: "GameNote \<Rightarrow> bool" where
  "is_bpm_change g = (command_type (ptnote g) = BPM)"

definition is_long :: "GameNote \<Rightarrow> bool" where
  "is_long g =
     (case params (ptnote g) of
        PTFileGeneralNoteParams si v p a d \<Rightarrow> d > 6
      | _ \<Rightarrow> False)"

definition is_short :: "GameNote \<Rightarrow> bool" where
  "is_short g = (\<not> is_long g)"

definition get_position :: "GameNote \<Rightarrow> nat" where
  "get_position g = position (ptnote g)"

text \<open>\<open>self._note.params.duration\<close>: only general notes have the attribute.\<close>

definition get_duration :: "GameNote \<Rightarrow> error + nat" where
  "get_duration g =
     (case params (ptnote g) of
        PTFileGeneralNoteParams si v p a d \<Rightarrow> Inr d
      | _ \<Rightarrow> Inl AttributeError)"

definition get_end_position :: "GameNote \<Rightarrow> error + nat" where
  "get_end_position g = bindE (get_duration g) (\<lambda>d. Inr (get_position g + d))"

definition get_position_millis :: "GameNote \<Rightarrow> error + pyfloat" where
  "get_position_millis g = list_get (played_millis_per_tick g) (get_position g)"

definition get_end_position_millis :: "GameNote \<Rightarrow> error + pyfloat" where
  "get_end_position_millis g =
     bindE (get_end_position g) (\<lambda>e. list_get (played_millis_per_tick g) e)"

definition is_playable :: "GameNote \<Rightarrow> bool" where
  "is_playable g = (is_general g \<and> \<not> (note_is_played g \<or> note_is_playing g))"

definition GameNote_reset_play_status :: "GameNote \<Rightarrow> GameNote" where
  "GameNote_reset_play_status g =
     g\<lparr>note_is_playing := False, note_is_played := False,
       note_result_type := None, note_play_result := None\<rparr>"

text \<open>
  \<open>start_play\<close> returns the note after the call and the returned value (\<open>None\<close> for the
  bare \<open>return\<close> of a press that is too early).  \<open>unit_judge_millis\<close> is an int (42 unless
  \<open>set_unit_judge_millis\<close> is called), so its multiples are exact.
\<close>

definition GameNote_start_play ::
  "GameNote \<Rightarrow> pyfloat \<Rightarrow> error + (GameNote \<times> GameNotePlayResult option)" where
  "GameNote_start_play g current_millis =
     bindE (get_position_millis g) (\<lambda>pm.
       let diff_millis = fsub pm current_millis in
       if flt (float_of_int (3 * unit_judge_millis g)) diff_millis then Inr (g, None)
       else
         let abs_diff_millis = fabs diff_millis;
             g1 = (if flt abs_diff_millis (float_of_int (unit_judge_millis g))
                     then g\<lparr>note_result_type := Some MAX100\<rparr>
                   else if flt abs_diff_millis (float_of_int (2 * unit_judge_millis g))
                     then g\<lparr>note_result_type := Some MAX90\<rparr>
                   else if flt abs_diff_millis (float_of_int (3 * unit_judge_millis g))
                     then g\<lparr>note_result_type := Some MAX1\<rparr>
                   else g);
             g2 = (if is_short g1
                     then g1\<lparr>note_is_played := True,
                            note_play_result :=
                              Some \<lparr>result_type = note_result_type g1,
                                    timing_diff = Some (fsub current_millis pm),
                                    reason = None\<rparr>\<rparr>
                   else g1\<lparr>note_is_playing := True\<rparr>)
         in Inr (g2, note_play_result g2))"

definition is_too_late_to_start :: "GameNote \<Rightarrow> pyfloat \<Rightarrow> error + bool" where
  "is_too_late_to_start g current_millis =
     (if note_is_playing g then Inr False
      else bindE (get_position_millis g) (\<lambda>pm.
             Inr (flt (float_of_int (3 * unit_judge_millis g)) (fsub current_millis pm))))"

definition is_too_early_to_finish :: "GameNote \<Rightarrow> pyfloat \<Rightarrow> error + bool" where
  "is_too_early_to_finish g current_millis =
     bindE (get_end_position_millis g) (\<lambda>em.
       Inr (flt (float_of_int (3 * unit_judge_millis g)) (fsub em current_millis)))"

definition is_too_late_to_finish :: "GameNote \<Rightarrow> pyfloat \<Rightarrow> error + bool" where
  "is_too_late_to_finish g current_millis =
     bindE (get_end_position_millis g) (\<lambda>em.
       Inr (flt (float_of_int (3 * unit_judge_millis g)) (fsub current_millis em)))"

definition should_fail_to_play :: "GameNote \<Rightarrow> pyfloat \<Rightarrow> error + bool" where
  "should_fail_to_play g current_millis =
     bindE (is_too_late_to_start g current_millis) (\<lambda>late.
       if late then Inr True
       else if note_is_playing g then is_too_late_to_finish g current_millis
       else Inr False)"

definition GameNote_finish_play ::
  "GameNote \<Rightarrow> pyfloat \<Rightarrow> error + (GameNote \<times> GameNotePlayResult option)" where
  "GameNote_finish_play g current_millis =
     (if is_long g \<and> note_is_playing g then
        let g1 = g\<lparr>note_is_played := True, note_is_playing := False\<rparr> in
        bindE (is_too_early_to_finish g1 current_millis) (\<lambda>early.
        bindE (get_end_position_millis g1) (\<lambda>em.
          let g2 = (if early
                      then g1\<lparr>note_result_type := Some BREAK,
                             note_play_result :=
                               Some \<lparr>result_type = Some BREAK,
                                     timing_diff = Some (fsub current_millis em),
                                     reason = Some TOO_EARLY_TO_FINISH\<rparr>\<rparr>
                    else g1\<lparr>note_play_result :=
                               Some \<lparr>result_type = note_result_type g1,
                                     timing_diff = Some (fsub current_millis em),
                                     reason = None\<rparr>\<rparr>)
          in Inr (g2, note_play_result g2)))
      else Inr (g, note_play_result g))"

definition GameNote_fail ::
  "GameNote \<Rightarrow> pyfloat \<Rightarrow> error + (GameNote \<times> GameNotePlayResult option)" where
  "GameNote_fail g current_millis =
     bindE (is_too_late_to_start g current_millis) (\<lambda>late.
       if late then
         bindE (get_position_millis g) (\<lambda>pm.
           let g1 = g\<lparr>note_play_result :=
                        Some \<lparr>result_type = Some BREAK,
                              timing_diff = Some (fsub current_millis pm),
                              reason = Some TOO_LATE_TO_START\<rparr>\<rparr>
           in Inr (g1, note_play_result g1))
       else
         bindE (is_too_late_to_finish g current_millis) (\<lambda>late_finish.
           if late_finish then
             bindE (get_end_position_millis g) (\<lambda>em.
               let g1 = g\<lparr>note_play_result :=
                            Some \<lparr>result_type = Some MAX1,
                                  timing_diff = Some (fsub current_millis em),
                                  reason = Some TOO_LATE_TO_FINISH\<rparr>\<rparr>
               in Inr (g1, note_play_result g1))
           else Inr (g, note_play_result g)))"

section \<open>Audio channels of a track (GameTrackChannel)\<close>

text \<open>
  A channel is known by its number in the mixer.  What the mixer does with a sound
  (\<open>channel.play\<close>, \<open>channel.set_volume\<close>) is outside the model; the round-robin choice of
  the channel is inside.
\<close>

record GameTrackChannel =
  channels :: "nat list"
  channel_volume :: pyfloat
  channel_index :: nat

definition GameTrackChannel_init :: "nat list \<Rightarrow> GameTrackChannel" where
  "GameTrackChannel_init cs =
     \<lparr>channels = cs, channel_volume = Finite 1, channel_index = 0\<rparr>"

definition set_volume :: "GameTrackChannel \<Rightarrow> pyfloat \<Rightarrow> GameTrackChannel" where
  "set_volume c v = c\<lparr>channel_volume := v\<rparr>"

definition find_free_channel :: "GameTrackChannel \<Rightarrow> error + (nat \<times> GameTrackChannel)" where
  "find_free_channel c =
     bindE (list_get (channels c) (channel_index c)) (\<lambda>free_channel.
       let i = channel_index c + 1;
           i' = (if i \<ge> length (channels c) then i - length (channels c) else i)
       in Inr (free_channel, c\<lparr>channel_index := i'\<rparr>))"

definition play_sound :: "GameTrackChannel \<Rightarrow> error + GameTrackChannel" where
  "play_sound c = bindE (find_free_channel c) (\<lambda>(free_channel, c'). Inr c')"

section \<open>Tracks, buttons and game modes\<close>

datatype GameTrackType = NONE | CMD | FG1 | FG2 | MR | BG

definition get_track_type :: "nat \<Rightarrow> GameTrackType" where
  "get_track_type track_index =
     (if track_index < 2 then CMD
      else if 2 \<le> track_index \<and> track_index < 12 then FG1
      else if 12 \<le> track_index \<and> track_index < 22 then FG2
      else if 22 \<le> track_index \<and> track_index < 23 then MR
      else BG)"

datatype GameTrackButtonType =
  BUTTON1 | BUTTON2 | BUTTON3 | BUTTON4 | BUTTON5 | BUTTON6 | SIDEL | SIDER | L1 | R1

fun get_track_index :: "GameTrackButtonType \<Rightarrow> nat" where
  "get_track_index SIDEL = 2"
| "get_track_index BUTTON1 = 3"
| "get_track_index BUTTON2 = 4"
| "get_track_index BUTTON3 = 5"
| "get_track_index BUTTON4 = 6"
| "get_track_index BUTTON5 = 7"
| "get_track_index BUTTON6 = 8"
| "get_track_index SIDER = 9"
| "get_track_index L1 = 10"
| "get_track_index R1 = 11"

datatype GameMode = FOUR | FIVE | SIX | EIGHT

fun get_button_types :: "GameMode \<Rightarrow> GameTrackButtonType list" where
  "get_button_types FOUR = [SIDEL, BUTTON1, BUTTON2, BUTTON3, BUTTON4, SIDER]"
| "get_button_types FIVE = [SIDEL, BUTTON1, BUTTON2, BUTTON3, BUTTON4, BUTTON5, SIDER]"
| "get_button_types SIX =
     [SIDEL, BUTTON1, BUTTON2, BUTTON3, BUTTON4, BUTTON5, BUTTON6, SIDER]"
| "get_button_types EIGHT =
     [L1, SIDEL, BUTTON1, BUTTON2, BUTTON3, BUTTON4, BUTTON5, BUTTON6, SIDER, R1]"

definition get_track_indices :: "GameMode \<Rightarrow> nat list" where
  "get_track_indices m = map get_track_index (get_button_types m)"

definition is_playable_track :: "GameMode \<Rightarrow> nat \<Rightarrow> bool" where
  "is_playable_track m track_index = (track_index \<in> set (get_track_indices m))"

datatype GameButtonActionType = KEYDOWN | KEYUP

text \<open>
  A \<open>GameTrack\<close>: its notes, the processing cursor \<open>current_index\<close>, the judgment cursor
  \<open>current_play_index\<close>, the key state and the channel object its notes share
  (\<open>None\<close> until \<open>set_channel\<close>).
\<close>

record GameTrack =
  track_type :: GameTrackType
  game_notes :: "GameNote list"
  track_channel :: "GameTrackChannel option"
  current_index :: nat
  current_play_index :: nat
  track_is_playing :: bool

definition increment_index :: "GameTrack \<Rightarrow> GameTrack" where
  "increment_index t = t\<lparr>current_index := current_index t + 1\<rparr>"

definition get_head_note :: "GameTrack \<Rightarrow> GameNote option" where
  "get_head_note t =
     (if current_index t < length (game_notes t)
      then Some (game_notes t ! current_index t) else None)"

text \<open>
  \<open>next(filter(lambda i: predicate(notes[i]), range(start_index, notes_len)), notes_len)\<close>
\<close>

definition find_note_index :: "(GameNote \<Rightarrow> bool) \<Rightarrow> GameNote list \<Rightarrow> nat \<Rightarrow> nat" where
  "find_note_index predicate ns start_index =
     (case find (\<lambda>i. predicate (ns ! i)) [start_index ..< length ns] of
        Some i \<Rightarrow> i
      | None \<Rightarrow> length ns)"

definition set_play_index :: "GameTrack \<Rightarrow> nat \<Rightarrow> GameTrack" where
  "set_play_index t play_index =
     t\<lparr>current_play_index := find_note_index is_playable (game_notes t) play_index\<rparr>"

definition increment_play_index :: "GameTrack \<Rightarrow> GameTrack" where
  "increment_play_index t = set_play_index t (current_play_index t + 1)"

definition get_play_head_note :: "GameTrack \<Rightarrow> GameNote option" where
  "get_play_head_note t =
     (if current_play_index t < length (game_notes t)
      then Some (game_notes t ! current_play_index t) else None)"

definition GameTrack_reset_play_status :: "GameTrack \<Rightarrow> GameTrack" where
  "GameTrack_reset_play_status t =
     t\<lparr>current_play_index := 0, game_notes := map GameNote_reset_play_status (game_notes t)\<rparr>"

section \<open>The sequence player's clock\<close>

record GameSequencePlayer =
  game_tracks_dict :: "(nat \<times> GameTrack) list"
  game_mode :: GameMode
  total_ticks :: nat
  ticks_per_measure :: nat
  tempo :: pyfloat
  beat :: nat
  tick_interval_millis :: pyfloat
  current_tick :: int
  current_millis :: pyfloat
  started_millis :: pyfloat
  elapsed_millis :: pyfloat
  played_millis :: pyfloat
  paused_millis :: pyfloat
  player_is_playing :: bool
  is_auto_play :: bool
  play_intermediate_mr_sound :: "nat option"
  player_unit_judge_millis :: int
  tempos_per_tick :: "pyfloat list"
  player_played_millis_per_tick :: "pyfloat list"
  tick_interval_millis_per_tick :: "pyfloat list"
  track_has_any_overlap :: "(nat \<times> bool) list"
  track_has_any_general_note :: "(nat \<times> bool) list"
  number_of_channels_per_track :: "(nat \<times> nat) list"
  total_number_of_channels :: nat
  pygame_channels :: "nat list"
  channel_per_track :: "(nat \<times> GameTrackChannel) list"

text \<open>
  \<open>game_tracks_dict\<close> is the dictionary from track index to track, in insertion order.
  \<open>game_playable_tracks_list\<close> is recomputed from the dictionary whenever the chart or the
  game mode changes, so a track is in it exactly when its index is playable in the
  current mode.  \<open>play_intermediate_mr_sound\<close> holds the index of the track on whose channel
  the pending closure plays.
\<close>

definition set_tempo :: "GameSequencePlayer \<Rightarrow> pyfloat \<Rightarrow> error + GameSequencePlayer" where
  "set_tempo s t =
     bindE (fdiv (float_of_int 240000) (float_of_int (int (ticks_per_measure s)))) (\<lambda>q.
     bindE (fdiv q t) (\<lambda>i.
       Inr (s\<lparr>tempo := t, tick_interval_millis := i\<rparr>)))"

definition set_beat :: "GameSequencePlayer \<Rightarrow> nat \<Rightarrow> GameSequencePlayer" where
  "set_beat s b = s\<lparr>beat := b\<rparr>"

text \<open>
  \<open>GameNote.process\<close> runs the closure chosen at construction: a general note plays its
  sound on the track's channel, a volume note sets the channel volume, a tempo or beat
  note changes the sequence player.
\<close>

definition GameNote_process ::
  "GameNote \<Rightarrow> GameTrackChannel option \<Rightarrow> GameSequencePlayer
     \<Rightarrow> error + (GameTrackChannel option \<times> GameSequencePlayer)" where
  "GameNote_process g ch s =
     (case params (ptnote g) of
        PTFileGeneralNoteParams si v p a d \<Rightarrow>
          (case ch of None \<Rightarrow> Inl AttributeError
           | Some c \<Rightarrow> bindE (play_sound c) (\<lambda>c'. Inr (Some c', s)))
      | PTFileVolumeNoteParams v \<Rightarrow>
          (case ch of None \<Rightarrow> Inl AttributeError
           | Some c \<Rightarrow>
               bindE (fdiv (float_of_int (int v)) (float_of_int 127)) (\<lambda>track_volume.
                 Inr (Some (set_volume c track_volume), s)))
      | PTFileBPMChangeNoteParams t \<Rightarrow> bindE (set_tempo s t) (\<lambda>s'. Inr (ch, s'))
      | PTFileBeatNoteParams b \<Rightarrow> Inr (ch, set_beat s b))"

definition GameTrack_start_play ::
  "GameTrack \<Rightarrow> pyfloat \<Rightarrow> GameSequencePlayer
     \<Rightarrow> error + (GameTrack \<times> GameSequencePlayer \<times> GameNotePlayResult option)" where
  "GameTrack_start_play t current s =
     (if track_is_playing t then Inr (t, s, None)
      else
        let t1 = t\<lparr>track_is_playing := True\<rparr> in
        case get_play_head_note t1 of
          None \<Rightarrow> Inr (t1, s, None)
        | Some n \<Rightarrow>
            bindE (GameNote_process n (track_channel t1) s) (\<lambda>(ch', s').
            bindE (GameNote_start_play n current) (\<lambda>(n', play_result).
              let t2 = t1\<lparr>track_channel := ch',
                         game_notes := (game_notes t1)[current_play_index t1 := n']\<rparr>
              in Inr (if note_is_played n' then increment_play_index t2 else t2,
                      s', play_result))))"

definition GameTrack_finish_play ::
  "GameTrack \<Rightarrow> pyfloat \<Rightarrow> error + (GameTrack \<times> GameNotePlayResult option)" where
  "GameTrack_finish_play t current =
     (if \<not> track_is_playing t then Inr (t, None)
      else
        let t1 = t\<lparr>track_is_playing := False\<rparr> in
        case get_play_head_note t1 of
          None \<Rightarrow> Inr (t1, None)
        | Some n \<Rightarrow>
            bindE (GameNote_finish_play n current) (\<lambda>(n', play_result).
              let t2 = t1\<lparr>game_notes := (game_notes t1)[current_play_index t1 := n']\<rparr>
              in Inr (if note_is_played n' then increment_play_index t2 else t2,
                      play_result)))"

section \<open>Score aggregator (GamePatternPlayer)\<close>

record GamePatternPlayer =
  play_result_count :: nat
  combo_count :: nat
  average_accuracy :: pyfloat
  result_type_counts :: "GameNotePlayResultType \<rightharpoonup> nat"

fun grade_value :: "GameNotePlayResultType \<Rightarrow> int" where
  "grade_value MAX100 = 100"
| "grade_value MAX90 = 90"
| "grade_value MAX1 = 1"
| "grade_value BREAK = 0"

definition reset_play_stats :: "GamePatternPlayer \<Rightarrow> GamePatternPlayer" where
  "reset_play_stats p =
     p\<lparr>play_result_count := 0, combo_count := 0, average_accuracy := Finite 0,
       result_type_counts := [MAX100 \<mapsto> 0, MAX90 \<mapsto> 0, MAX1 \<mapsto> 0, BREAK \<mapsto> 0]\<rparr>"

text \<open>
  A result without a grade makes the division \<open>result_type / count\<close> raise TypeError;
  the callers test for it before they call.
\<close>

definition on_play_result ::
  "GameNotePlayResult \<Rightarrow> GamePatternPlayer \<Rightarrow> error + GamePatternPlayer" where
  "on_play_result play_result p =
     (let c = play_result_count p + 1 in
      bindE (fdiv (fmul (average_accuracy p) (float_of_int (int c - 1))) (float_of_int (int c)))
        (\<lambda>weighted.
      case result_type play_result of
        None \<Rightarrow> Inl TypeError
      | Some g \<Rightarrow>
          bindE (fdiv (float_of_int (grade_value g)) (float_of_int (int c))) (\<lambda>share.
          Inr (p\<lparr>play_result_count := c,
                 average_accuracy := fadd weighted share,
                 combo_count := (if g = BREAK then 0 else combo_count p + 1),
                 result_type_counts :=
                   (result_type_counts p)
                     (g \<mapsto> (case result_type_counts p g of None \<Rightarrow> 0 | Some k \<Rightarrow> k) + 1)\<rparr>))))"

text \<open>\<open>if play_result is not None and play_result.result_type is not None: on_play_result\<close>\<close>

definition report_play_result ::
  "GameNotePlayResult option \<Rightarrow> GamePatternPlayer \<Rightarrow> error + GamePatternPlayer" where
  "report_play_result r p =
     (case r of
        None \<Rightarrow> Inr p
      | Some play_result \<Rightarrow>
          if result_type play_result \<noteq> None then on_play_result play_result p else Inr p)"

definition dict_set :: "('k \<times> 'v) list \<Rightarrow> 'k \<Rightarrow> 'v \<Rightarrow> ('k \<times> 'v) list" where
  "dict_set d k v = map (\<lambda>(k', v'). if k' = k then (k', v) else (k', v')) d"

definition play_button ::
  "GameTrackButtonType \<Rightarrow> GameButtonActionType \<Rightarrow> GameSequencePlayer \<Rightarrow> GamePatternPlayer
     \<Rightarrow> error + (GameSequencePlayer \<times> GamePatternPlayer)" where
  "play_button button action_type s p =
     (let track_index = get_track_index button in
      case map_of (game_tracks_dict s) track_index of
        None \<Rightarrow> Inr (s, p)
      | Some t \<Rightarrow>
          let current = elapsed_millis s in
          bindE (case action_type of
                   KEYDOWN \<Rightarrow> GameTrack_start_play t current s
                 | KEYUP \<Rightarrow> bindE (GameTrack_finish_play t current)
                              (\<lambda>(t', play_result). Inr (t', s, play_result)))
            (\<lambda>(t', s', play_result).
               bindE (report_play_result play_result p) (\<lambda>p'.
                 Inr (s'\<lparr>game_tracks_dict := dict_set (game_tracks_dict s') track_index t'\<rparr>,
                      p'))))"

section \<open>One frame of the sequence player (on_tick)\<close>

definition on_tick_start :: "GameSequencePlayer \<Rightarrow> pyfloat \<Rightarrow> GameSequencePlayer" where
  "on_tick_start s now = (if \<not> player_is_playing s then s else s\<lparr>current_millis := now\<rparr>)"

text \<open>The start of \<open>on_tick\<close>: first frame, resume after a seek, resume after a pause.\<close>

definition on_tick_clock :: "GameSequencePlayer \<Rightarrow> GameSequencePlayer" where
  "on_tick_clock s =
     (let s1 = (if flt (started_millis s) (Finite 0)
                then (if flt (played_millis s) (Finite 0)
                      then s\<lparr>started_millis := current_millis s\<rparr>
                      else s\<lparr>started_millis := fsub (current_millis s) (played_millis s)\<rparr>)
                else s);
          s2 = (if flt (played_millis s1) (Finite 0) then s1\<lparr>played_millis := Finite 0\<rparr> else s1)
      in if flt (Finite 0) (paused_millis s2)
         then s2\<lparr>started_millis :=
                   fadd (started_millis s2) (fsub (current_millis s2) (paused_millis s2)),
                 paused_millis := Finite (- 1)\<rparr>
         else s2)"

definition on_tick_intermediate_mr_sound :: "GameSequencePlayer \<Rightarrow> error + GameSequencePlayer" where
  "on_tick_intermediate_mr_sound s =
     (case play_intermediate_mr_sound s of
        None \<Rightarrow> Inr s
      | Some track_index \<Rightarrow>
          (case map_of (game_tracks_dict s) track_index of
             None \<Rightarrow> Inl KeyError
           | Some t \<Rightarrow>
               (case track_channel t of
                  None \<Rightarrow> Inl AttributeError
                | Some c \<Rightarrow>
                    bindE (play_sound c) (\<lambda>c'.
                      Inr (s\<lparr>game_tracks_dict :=
                               dict_set (game_tracks_dict s) track_index
                                 (t\<lparr>track_channel := Some c'\<rparr>),
                             play_intermediate_mr_sound := None\<rparr>)))))"

text \<open>
  The tick advance of the frame.  \<open>int(...)\<close> raises on a quotient that is NaN or
  infinite.
\<close>

definition on_tick_advance :: "GameSequencePlayer \<Rightarrow> error + GameSequencePlayer" where
  "on_tick_advance s =
     (let s1 = s\<lparr>elapsed_millis := fsub (current_millis s) (started_millis s)\<rparr>;
          incremental_millis = fsub (elapsed_millis s1) (played_millis s1)
      in bindE (if flt (Finite 0) (tick_interval_millis s1)
                then bindE (fdiv incremental_millis (tick_interval_millis s1)) py_int
                else Inr 0) (\<lambda>incremental_ticks.
           Inr (if incremental_ticks > 0
                then s1\<lparr>current_tick := current_tick s1 + incremental_ticks,
                        played_millis :=
                          fadd (played_millis s1)
                            (fmul (tick_interval_millis s1) (float_of_int incremental_ticks))\<rparr>
                else s1)))"

text \<open>
  The processing cursor of one track: every head note up to the current tick is passed,
  and collected for processing unless it is a general note of an interactive track
  (\<open>keep\<close> is "the track is not playable or auto-play is on").
\<close>

function drain_track :: "int \<Rightarrow> bool \<Rightarrow> GameTrack \<Rightarrow> GameTrack \<times> GameNote list" where
  "drain_track tick keep t =
     (case get_head_note t of
        None \<Rightarrow> (t, [])
      | Some n \<Rightarrow>
          if int (get_position n) \<le> tick
          then (case drain_track tick keep (increment_index t) of
                  (t', ns) \<Rightarrow> (t', if \<not> is_general n \<or> keep then n # ns else ns))
          else (t, []))"
  by pat_completeness auto
termination
  by (relation "measure (\<lambda>(tick, keep, t). length (game_notes t) - current_index t)")
     (auto simp: get_head_note_def increment_index_def split: if_splits)

definition on_tick_drain ::
  "GameSequencePlayer \<Rightarrow> GameSequencePlayer \<times> (nat \<times> GameNote) list" where
  "on_tick_drain s =
     (let rs = map (\<lambda>(track_index, t).
                 case drain_track (current_tick s)
                        (\<not> is_playable_track (game_mode s) track_index \<or> is_auto_play s) t of
                   (t', ns) \<Rightarrow> ((track_index, t'), map (Pair track_index) ns))
               (game_tracks_dict s)
      in (s\<lparr>game_tracks_dict := map fst rs\<rparr>, concat (map snd rs)))"

fun process_notes ::
  "(nat \<times> GameNote) list \<Rightarrow> GameSequencePlayer \<Rightarrow> error + GameSequencePlayer" where
  "process_notes [] s = Inr s"
| "process_notes ((track_index, n) # rest) s =
     (case map_of (game_tracks_dict s) track_index of
        None \<Rightarrow> Inl KeyError
      | Some t \<Rightarrow>
          (case GameNote_process n (track_channel t) s of
             Inl e \<Rightarrow> Inl e
           | Inr (ch', s') \<Rightarrow>
               process_notes rest
                 (s'\<lparr>game_tracks_dict :=
                       dict_set (game_tracks_dict s') track_index (t\<lparr>track_channel := ch'\<rparr>)\<rparr>)))"

text \<open>
  The body of the auto-fail loop for the head note: without auto-play the note fails and
  its result is reported.
\<close>

definition sweep_fail_head ::
  "pyfloat \<Rightarrow> bool \<Rightarrow> GameNote \<Rightarrow> GamePatternPlayer \<Rightarrow> error + (GameNote \<times> GamePatternPlayer)" where
  "sweep_fail_head elapsed auto_play n p =
     (if \<not> auto_play
      then bindE (GameNote_fail n elapsed) (\<lambda>(n', play_result).
             bindE (report_play_result play_result p) (\<lambda>p'. Inr (n', p')))
      else Inr (n, p))"

lemma find_note_index_bounds:
  "start \<le> length ns \<Longrightarrow>
     start \<le> find_note_index P ns start \<and> find_note_index P ns start \<le> length ns"
  by (auto simp: find_note_index_def find_Some_iff split: option.splits)

function sweep_track ::
  "pyfloat \<Rightarrow> bool \<Rightarrow> GameTrack \<Rightarrow> GamePatternPlayer \<Rightarrow> error + (GameTrack \<times> GamePatternPlayer)" where
  "sweep_track elapsed auto_play t p =
     (case get_play_head_note t of
        None \<Rightarrow> Inr (t, p)
      | Some n \<Rightarrow>
          (case should_fail_to_play n elapsed of
             Inl e \<Rightarrow> Inl e
           | Inr False \<Rightarrow> Inr (t, p)
           | Inr True \<Rightarrow>
               (case sweep_fail_head elapsed auto_play n p of
                  Inl e \<Rightarrow> Inl e
                | Inr (n', p') \<Rightarrow>
                    sweep_track elapsed auto_play
                      (increment_play_index
                         (t\<lparr>game_notes := (game_notes t)[current_play_index t := n']\<rparr>))
                      p')))"
  by pat_completeness auto
termination
proof (relation "measure (\<lambda>(elapsed, auto_play, t, p).
                   length (game_notes t) - current_play_index t)", goal_cases)
  case 1
  show ?case by simp
next
  case (2 elapsed auto_play t p n b x n' p')
  from 2(1) have lt: "current_play_index t < length (game_notes t)"
    by (simp add: get_play_head_note_def split: if_splits)
  let ?ns = "(game_notes t)[current_play_index t := n']"
  from lt have "current_play_index t + 1 \<le> length ?ns" by simp
  from find_note_index_bounds [OF this, of is_playable]
  have "current_play_index t < find_note_index is_playable ?ns (current_play_index t + 1)"
    by simp
  with lt show ?case
    by (simp add: increment_play_index_def set_play_index_def)
qed

fun sweep_tracks ::
  "pyfloat \<Rightarrow> bool \<Rightarrow> GameMode \<Rightarrow> (nat \<times> GameTrack) list \<Rightarrow> GamePatternPlayer
     \<Rightarrow> error + ((nat \<times> GameTrack) list \<times> GamePatternPlayer)" where
  "sweep_tracks elapsed auto_play m [] p = Inr ([], p)"
| "sweep_tracks elapsed auto_play m ((track_index, t) # rest) p =
     (if is_playable_track m track_index
      then (case sweep_track elapsed auto_play t p of
              Inl e \<Rightarrow> Inl e
            | Inr (t', p') \<Rightarrow>
                (case sweep_tracks elapsed auto_play m rest p' of
                   Inl e \<Rightarrow> Inl e
                 | Inr (rest', p'') \<Rightarrow> Inr ((track_index, t') # rest', p'')))
      else (case sweep_tracks elapsed auto_play m rest p of
              Inl e \<Rightarrow> Inl e
            | Inr (rest', p') \<Rightarrow> Inr ((track_index, t) # rest', p')))"

definition on_tick ::
  "GameSequencePlayer \<Rightarrow> GamePatternPlayer \<Rightarrow> error + (GameSequencePlayer \<times> GamePatternPlayer)" where
  "on_tick s p =
     (if \<not> player_is_playing s then Inr (s, p)
      else
        bindE (on_tick_intermediate_mr_sound (on_tick_clock s)) (\<lambda>s1.
        bindE (on_tick_advance s1) (\<lambda>s2.
          case on_tick_drain s2 of
            (s3, notes_to_process) \<Rightarrow>
              bindE (process_notes notes_to_process s3) (\<lambda>s4.
              bindE (sweep_tracks (elapsed_millis s4) (is_auto_play s4) (game_mode s4)
                       (game_tracks_dict s4) p) (\<lambda>(d, p').
                let s5 = s4\<lparr>game_tracks_dict := d\<rparr>
                in Inr (if current_tick s5 > int (total_ticks s5)
                        then s5\<lparr>player_is_playing := False\<rparr> else s5, p'))))))"

section \<open>Loading a chart (GameSequencePlayer.open_ptfile)\<close>

text \<open>\<open>d[k] = v\<close> on a dictionary kept in insertion order.\<close>

definition dict_put :: "('k \<times> 'v) list \<Rightarrow> 'k \<Rightarrow> 'v \<Rightarrow> ('k \<times> 'v) list" where
  "dict_put d k v = (if map_of d k = None then d @ [(k, v)] else dict_set d k v)"

text \<open>
  The sound table maps a sound index to the value of \<open>get_length() * 1000\<close> of its sound;
  the audio files and the mixer are outside the model.  \<open>GameNote.__init__\<close> looks the
  sound of a general note up (KeyError when the index is not in the table) and asserts a
  centred pan on the MR track.
\<close>

definition GameNote_init ::
  "(nat \<rightharpoonup> pyfloat) \<Rightarrow> GameTrackType \<Rightarrow> pyfloat PTFileNote \<Rightarrow> error + GameNote" where
  "GameNote_init sound_table ttype n =
     (let g = \<lparr>ptnote = n, sound_duration_millis = None, played_millis_per_tick = [],
                unit_judge_millis = 42, note_is_playing = False, note_is_played = False,
                note_result_type = None, note_play_result = None\<rparr>
      in case params n of
           PTFileGeneralNoteParams si v p a d \<Rightarrow>
             (case sound_table si of
                None \<Rightarrow> Inl KeyError
              | Some len \<Rightarrow>
                  if ttype = MR \<and> p \<noteq> 64 then Inl AssertionError
                  else Inr (g\<lparr>sound_duration_millis := Some len\<rparr>))
         | _ \<Rightarrow> Inr g)"

fun init_notes ::
  "(nat \<rightharpoonup> pyfloat) \<Rightarrow> GameTrackType \<Rightarrow> pyfloat PTFileNote list \<Rightarrow> error + GameNote list" where
  "init_notes sound_table ttype [] = Inr []"
| "init_notes sound_table ttype (n # ns) =
     (case GameNote_init sound_table ttype n of
        Inl e \<Rightarrow> Inl e
      | Inr g \<Rightarrow>
          (case init_notes sound_table ttype ns of
             Inl e \<Rightarrow> Inl e
           | Inr gs \<Rightarrow> Inr (g # gs)))"

definition GameTrack_init ::
  "(nat \<rightharpoonup> pyfloat) \<Rightarrow> GameTrackType \<Rightarrow> pyfloat PTFileTrack \<Rightarrow> error + GameTrack" where
  "GameTrack_init sound_table ttype tr =
     bindE (init_notes sound_table ttype (track_notes tr)) (\<lambda>gs.
       Inr \<lparr>track_type = ttype, game_notes = gs, track_channel = None,
            current_index = 0, current_play_index = 0, track_is_playing = False\<rparr>)"

text \<open>\<open>{i: track for i, track in enumerate(tracks) if track.notes}\<close>\<close>

definition effective_tracks :: "'f PTFileTrack list \<Rightarrow> (nat \<times> 'f PTFileTrack) list" where
  "effective_tracks trs =
     filter (\<lambda>(track_index, tr). track_notes tr \<noteq> []) (zip [0 ..< length trs] trs)"

fun init_tracks ::
  "(nat \<rightharpoonup> pyfloat) \<Rightarrow> (nat \<times> pyfloat PTFileTrack) list \<Rightarrow> error + (nat \<times> GameTrack) list" where
  "init_tracks sound_table [] = Inr []"
| "init_tracks sound_table ((track_index, tr) # rest) =
     (case GameTrack_init sound_table (get_track_type track_index) tr of
        Inl e \<Rightarrow> Inl e
      | Inr t \<Rightarrow>
          (case init_tracks sound_table rest of
             Inl e \<Rightarrow> Inl e
           | Inr ts \<Rightarrow> Inr ((track_index, t) # ts)))"

definition GameTrack_set_unit_judge_millis :: "int \<Rightarrow> GameTrack \<Rightarrow> GameTrack" where
  "GameTrack_set_unit_judge_millis u t =
     t\<lparr>game_notes := map (\<lambda>g. g\<lparr>unit_judge_millis := u\<rparr>) (game_notes t)\<rparr>"

definition GameTrack_set_played_millis_per_tick :: "pyfloat list \<Rightarrow> GameTrack \<Rightarrow> GameTrack" where
  "GameTrack_set_played_millis_per_tick tbl t =
     t\<lparr>game_notes := map (\<lambda>g. g\<lparr>played_millis_per_tick := tbl\<rparr>) (game_notes t)\<rparr>"

definition get_sound_duration_millis :: "GameNote \<Rightarrow> pyfloat option" where
  "get_sound_duration_millis g = sound_duration_millis g"

subsection \<open>The timeline sweep\<close>

text \<open>
  The local variables of the sweep (\<open>tempo\<close>, \<open>played_millis\<close>, \<open>tick_interval_millis\<close>,
  \<open>last_general_note_per_track\<close>) and the attributes it fills.
\<close>

record timeline_sweep =
  sweep_tempo :: pyfloat
  sweep_played_millis :: pyfloat
  sweep_tick_interval_millis :: pyfloat
  last_general_note_per_track :: "(nat \<times> GameNote) list"
  sweep_has_any_overlap :: "(nat \<times> bool) list"
  sweep_tempos_per_tick :: "pyfloat list"
  sweep_played_millis_per_tick :: "pyfloat list"
  sweep_tick_interval_millis_per_tick :: "pyfloat list"

text \<open>The body of the \<open>while\<close> loop for one due note, before \<open>track.increment_index()\<close>.\<close>

definition timeline_overlap :: "nat \<Rightarrow> timeline_sweep \<Rightarrow> error + timeline_sweep" where
  "timeline_overlap track_index v =
     (if map_of (sweep_has_any_overlap v) track_index = None
      then (case map_of (last_general_note_per_track v) track_index of
              None \<Rightarrow> Inr v
            | Some prev_note \<Rightarrow>
                bindE (list_get (sweep_played_millis_per_tick v) (get_position prev_note))
                  (\<lambda>started.
                     case get_sound_duration_millis prev_note of
                       None \<Rightarrow> Inl TypeError
                     | Some len \<Rightarrow>
                         Inr (if flt (sweep_played_millis v) (fadd started len)
                              then v\<lparr>sweep_has_any_overlap :=
                                       dict_put (sweep_has_any_overlap v) track_index True\<rparr>
                              else v)))
      else Inr v)"

definition timeline_note ::
  "nat \<Rightarrow> nat \<Rightarrow> GameNote \<Rightarrow> timeline_sweep \<Rightarrow> error + timeline_sweep" where
  "timeline_note tpm track_index n v =
     bindE (if is_general n
            then bindE (timeline_overlap track_index v) (\<lambda>v1.
                   Inr (v1\<lparr>last_general_note_per_track :=
                             dict_put (last_general_note_per_track v1) track_index n\<rparr>))
            else Inr v) (\<lambda>v2.
       case params (ptnote n) of
         PTFileBPMChangeNoteParams t \<Rightarrow>
           bindE (fdiv (float_of_int 240000) (float_of_int (int tpm))) (\<lambda>q.
           bindE (fdiv q t) (\<lambda>i.
             Inr (v2\<lparr>sweep_tempo := t, sweep_tick_interval_millis := i\<rparr>)))
       | _ \<Rightarrow> Inr v2)"

function timeline_track ::
  "nat \<Rightarrow> nat \<Rightarrow> nat \<Rightarrow> GameTrack \<Rightarrow> timeline_sweep \<Rightarrow> error + (GameTrack \<times> timeline_sweep)" where
  "timeline_track tpm cursor_tick track_index t v =
     (case get_head_note t of
        None \<Rightarrow> Inr (t, v)
      | Some n \<Rightarrow>
          if get_position n \<le> cursor_tick
          then (case timeline_note tpm track_index n v of
                  Inl e \<Rightarrow> Inl e
                | Inr v' \<Rightarrow> timeline_track tpm cursor_tick track_index (increment_index t) v')
          else Inr (t, v))"
  by pat_completeness auto
termination
  by (relation "measure (\<lambda>(tpm, cursor_tick, track_index, t, v).
                  length (game_notes t) - current_index t)")
     (auto simp: get_head_note_def increment_index_def split: if_splits)

fun timeline_tracks ::
  "nat \<Rightarrow> nat \<Rightarrow> (nat \<times> GameTrack) list \<Rightarrow> timeline_sweep
     \<Rightarrow> error + ((nat \<times> GameTrack) list \<times> timeline_sweep)" where
  "timeline_tracks tpm cursor_tick [] v = Inr ([], v)"
| "timeline_tracks tpm cursor_tick ((track_index, t) # rest) v =
     (case timeline_track tpm cursor_tick track_index t v of
        Inl e \<Rightarrow> Inl e
      | Inr (t', v') \<Rightarrow>
          (case timeline_tracks tpm cursor_tick rest v' of
             Inl e \<Rightarrow> Inl e
           | Inr (rest', v'') \<Rightarrow> Inr ((track_index, t') # rest', v'')))"

text \<open>One turn of \<open>for cursor_tick in range(total_ticks)\<close>.\<close>

definition timeline_tick ::
  "nat \<Rightarrow> nat \<Rightarrow> (nat \<times> GameTrack) list \<Rightarrow> timeline_sweep
     \<Rightarrow> error + ((nat \<times> GameTrack) list \<times> timeline_sweep)" where
  "timeline_tick tpm cursor_tick trs v =
     (let v1 = v\<lparr>sweep_played_millis :=
                    fadd (sweep_played_millis v) (sweep_tick_interval_millis v)\<rparr>
      in bindE (timeline_tracks tpm cursor_tick trs v1) (\<lambda>(trs', v2).
           Inr (trs',
                v2\<lparr>sweep_tempos_per_tick := sweep_tempos_per_tick v2 @ [sweep_tempo v2],
                   sweep_played_millis_per_tick :=
                     sweep_played_millis_per_tick v2 @ [sweep_played_millis v2],
                   sweep_tick_interval_millis_per_tick :=
                     sweep_tick_interval_millis_per_tick v2 @ [sweep_tick_interval_millis v2]\<rparr>)))"

fun timeline_loop ::
  "nat \<Rightarrow> nat \<Rightarrow> nat \<Rightarrow> (nat \<times> GameTrack) list \<Rightarrow> timeline_sweep
     \<Rightarrow> error + ((nat \<times> GameTrack) list \<times> timeline_sweep)" where
  "timeline_loop tpm 0 cursor_tick trs v = Inr (trs, v)"
| "timeline_loop tpm (Suc remaining) cursor_tick trs v =
     (case timeline_tick tpm cursor_tick trs v of
        Inl e \<Rightarrow> Inl e
      | Inr (trs', v') \<Rightarrow> timeline_loop tpm remaining (cursor_tick + 1) trs' v')"

definition timeline_start :: timeline_sweep where
  "timeline_start =
     \<lparr>sweep_tempo = Finite 0, sweep_played_millis = Finite 0,
      sweep_tick_interval_millis = Finite 0,
      last_general_note_per_track = [], sweep_has_any_overlap = [],
      sweep_tempos_per_tick = [], sweep_played_millis_per_tick = [],
      sweep_tick_interval_millis_per_tick = []\<rparr>"

subsection \<open>Channels\<close>

definition channel_count :: "bool \<Rightarrow> bool option \<Rightarrow> GameTrackType \<Rightarrow> nat" where
  "channel_count has_general overlap ttype =
     (if \<not> has_general then 0
      else if overlap = Some True \<or> ttype \<in> set [FG1] then 2
      else 1)"

text \<open>\<open>partition_list_by_size\<close> for a dictionary of sizes; \<open>end\<close> is the running end.\<close>

fun partition_list_by_size ::
  "'a list \<Rightarrow> nat \<Rightarrow> ('k \<times> nat) list \<Rightarrow> ('k \<times> 'a list) list" where
  "partition_list_by_size lst end_index [] = []"
| "partition_list_by_size lst end_index ((key, n) # sizes) =
     (key, slice end_index (end_index + n) lst)
       # partition_list_by_size lst (end_index + n) sizes"

definition set_track_channels ::
  "(nat \<times> GameTrackChannel) list \<Rightarrow> (nat \<times> GameTrack) list \<Rightarrow> error + (nat \<times> GameTrack) list" where
  "set_track_channels chans trs =
     (if list_all (\<lambda>(track_index, t). map_of chans track_index \<noteq> None) trs
      then Inr (map (\<lambda>(track_index, t).
                  (track_index, t\<lparr>track_channel := map_of chans track_index\<rparr>)) trs)
      else Inl KeyError)"

text \<open>
  \<open>open_ptfile\<close>.  \<open>s\<close> is the player before the call, of which the game mode, the unit
  judge window and the auto-play flag survive; \<open>p\<close> is the score aggregator, which
  \<open>stop_play\<close> resets.
\<close>

definition open_ptfile ::
  "(nat \<rightharpoonup> pyfloat) \<Rightarrow> pyfloat PTFile \<Rightarrow> GameSequencePlayer \<Rightarrow> GamePatternPlayer
     \<Rightarrow> error + (GameSequencePlayer \<times> GamePatternPlayer)" where
  "open_ptfile sound_table ptfile s p =
     (let eff = effective_tracks (tracks ptfile);
          tpm = header_ticks_per_measure (header ptfile);
          total = header_total_ticks (header ptfile)
      in bindE (init_tracks sound_table eff) (\<lambda>trs0.
         let trs1 = map (\<lambda>(track_index, t).
                      (track_index, GameTrack_set_unit_judge_millis (player_unit_judge_millis s) t))
                    trs0;
             has_general = map (\<lambda>(track_index, tr).
                             (track_index,
                              list_ex (\<lambda>n. command_type n = GENERAL) (track_notes tr))) eff
         in bindE (timeline_loop tpm total 0 trs1 timeline_start) (\<lambda>(trs2, v).
            let trs3 = map (\<lambda>(track_index, t).
                         (track_index,
                          GameTrack_set_played_millis_per_tick (sweep_played_millis_per_tick v)
                            (t\<lparr>current_index := 0\<rparr>))) trs2;
                counts = map (\<lambda>(track_index, tr).
                           (track_index,
                            channel_count (map_of has_general track_index = Some True)
                              (map_of (sweep_has_any_overlap v) track_index)
                              (get_track_type track_index))) eff;
                total_channels = sum_list (map snd counts);
                pool = [0 ..< total_channels];
                chans = map (\<lambda>(track_index, cs). (track_index, GameTrackChannel_init cs))
                          (partition_list_by_size pool 0 counts)
            in bindE (set_track_channels chans trs3) (\<lambda>trs4.
               bindE (set_tempo
                        (s\<lparr>game_tracks_dict := trs4,
                           total_ticks := total, ticks_per_measure := tpm,
                           tempos_per_tick := sweep_tempos_per_tick v,
                           player_played_millis_per_tick := sweep_played_millis_per_tick v,
                           tick_interval_millis_per_tick := sweep_tick_interval_millis_per_tick v,
                           track_has_any_overlap := sweep_has_any_overlap v,
                           track_has_any_general_note := has_general,
                           number_of_channels_per_track := counts,
                           total_number_of_channels := total_channels,
                           pygame_channels := pool,
                           channel_per_track := chans\<rparr>)
                        (master_bpm (header ptfile))) (\<lambda>s1.
                 Inr (set_beat s1 4
                        \<lparr>current_tick := 0, current_millis := Finite (- 1),
                         started_millis := Finite (- 1), elapsed_millis := Finite (- 1),
                         played_millis := Finite (- 1), paused_millis := Finite (- 1),
                         player_is_playing := False,
                         play_intermediate_mr_sound := None\<rparr>,
                      reset_play_stats p))))))"


text \<open>
  The intermediate states of a successful frame: after the pending MR sound (\<open>s1\<close>), the
  tick advance (\<open>s2\<close>), the processing cursors (\<open>s3\<close>, with the notes \<open>ns\<close> to process),
  the processing of these notes (\<open>s4\<close>) and the auto-fail sweep (tracks \<open>d\<close>).
\<close>

definition on_tick_stages ::
  "GameSequencePlayer \<Rightarrow> GamePatternPlayer \<Rightarrow> GameSequencePlayer \<Rightarrow> GamePatternPlayer
     \<Rightarrow> GameSequencePlayer \<Rightarrow> GameSequencePlayer \<Rightarrow> GameSequencePlayer
     \<Rightarrow> (nat \<times> GameNote) list \<Rightarrow> GameSequencePlayer \<Rightarrow> (nat \<times> GameTrack) list \<Rightarrow> bool" where
  "on_tick_stages s p s' p' s1 s2 s3 ns s4 d =
     (on_tick_intermediate_mr_sound (on_tick_clock s) = Inr s1
      \<and> on_tick_advance s1 = Inr s2
      \<and> on_tick_drain s2 = (s3, ns)
      \<and> process_notes ns s3 = Inr s4
      \<and> sweep_tracks (elapsed_millis s4) (is_auto_play s4) (game_mode s4)
            (game_tracks_dict s4) p = Inr (d, p')
      \<and> s' = (if int (total_ticks s4) < current_tick s4
               then s4\<lparr>game_tracks_dict := d, player_is_playing := False\<rparr>
               else s4\<lparr>game_tracks_dict := d\<rparr>))"

subsection \<open>Properties of a loaded chart\<close>

text \<open>
  The value of the Python expression \<open>240000 / ticks_per_measure / tempo\<close>: the quotient of
  two ints, divided by a float.
\<close>

definition interval_of :: "nat \<Rightarrow> pyfloat \<Rightarrow> error + pyfloat" where
  "interval_of tpm tempo_value =
     bindE (fdiv (float_of_int 240000) (float_of_int (int tpm))) (\<lambda>q. fdiv q tempo_value)"

text \<open>
  The sweep passes over the notes of a track in the order of the file and stops at the
  first note that lies after the current tick, so by the end of tick \<open>t\<close> it has processed
  the longest prefix of notes at positions up to \<open>t\<close>.  \<open>processed_tempos\<close> lists the tempos
  of the tempo notes among them, over all tracks that have notes.
\<close>

definition tempo_of :: "pyfloat PTFileNote \<Rightarrow> pyfloat option" where
  "tempo_of n = (case params n of PTFileBPMChangeNoteParams x \<Rightarrow> Some x | _ \<Rightarrow> None)"

definition processed_notes :: "nat \<Rightarrow> pyfloat PTFileNote list \<Rightarrow> pyfloat PTFileNote list" where
  "processed_notes t ns = takeWhile (\<lambda>n. position n \<le> t) ns"

definition processed_tempos :: "pyfloat PTFile \<Rightarrow> nat \<Rightarrow> pyfloat list" where
  "processed_tempos ptfile t =
     concat (map (\<lambda>(track_index, tr).
                    List.map_filter tempo_of (processed_notes t (track_notes tr)))
               (effective_tracks (tracks ptfile)))"

text \<open>
  \<open>tempo_recorded\<close> relates the tempo and the tick interval recorded for a tick to the set
  of tempos processed so far: with no tempo note processed both are their initial 0;
  otherwise the tempo is one of the processed tempos and the interval is the value
  computed from it.
\<close>

definition tempo_recorded :: "nat \<Rightarrow> pyfloat set \<Rightarrow> pyfloat \<Rightarrow> pyfloat \<Rightarrow> bool" where
  "tempo_recorded tpm seen tempo_value interval =
     ((seen = {} \<longrightarrow> tempo_value = Finite 0 \<and> interval = Finite 0)
      \<and> (seen \<noteq> {} \<longrightarrow> tempo_value \<in> seen \<and> interval_of tpm tempo_value = Inr interval))"

text \<open>The tempos of the notes a track's processing cursor has passed.\<close>

definition seen_tempos :: "GameTrack \<Rightarrow> pyfloat set" where
  "seen_tempos t =
     set (List.map_filter tempo_of (map ptnote (take (current_index t) (game_notes t))))"

definition tracks_seen_tempos :: "(nat \<times> GameTrack) list \<Rightarrow> pyfloat set" where
  "tracks_seen_tempos trs = (\<Union>x \<in> set trs. seen_tempos (snd x))"

text \<open>A list of notes in which every tempo note has a positive tempo.\<close>

definition positive_tempos :: "pyfloat PTFileNote list \<Rightarrow> bool" where
  "positive_tempos ns =
     list_all (\<lambda>n. case params n of PTFileBPMChangeNoteParams x \<Rightarrow> flt (Finite 0) x | _ \<Rightarrow> True) ns"

definition tracks_positive_tempos :: "(nat \<times> GameTrack) list \<Rightarrow> bool" where
  "tracks_positive_tempos trs =
     list_all (\<lambda>(track_index, t). positive_tempos (map ptnote (game_notes t))) trs"

text \<open>A double that is not negative: a fixed point of the rounding, or infinity.\<close>

definition nonneg_double :: "pyfloat \<Rightarrow> bool" where
  "nonneg_double a =
     (case a of Finite x \<Rightarrow> 0 \<le> x \<and> round_double x = Finite x | PInf \<Rightarrow> True | _ \<Rightarrow> False)"

text \<open>
  What the sweep maintains between two ticks: the arrays have one entry per finished tick,
  entry \<open>i\<close> records the tempo and interval at the end of tick \<open>i\<close>, the played milliseconds
  start at 0 and each entry adds the interval of the entry before.
\<close>

definition timeline_inv :: "nat \<Rightarrow> (nat \<Rightarrow> pyfloat set) \<Rightarrow> timeline_sweep \<Rightarrow> bool" where
  "timeline_inv tpm seen_at v =
     (length (sweep_tempos_per_tick v) = length (sweep_played_millis_per_tick v)
      \<and> length (sweep_tick_interval_millis_per_tick v) = length (sweep_played_millis_per_tick v)
      \<and> (\<forall>i < length (sweep_played_millis_per_tick v).
            tempo_recorded tpm (seen_at i) (sweep_tempos_per_tick v ! i)
              (sweep_tick_interval_millis_per_tick v ! i))
      \<and> (\<forall>i. Suc i < length (sweep_played_millis_per_tick v) \<longrightarrow>
            sweep_played_millis_per_tick v ! Suc i =
              fadd (sweep_played_millis_per_tick v ! i)
                (sweep_tick_interval_millis_per_tick v ! i))
      \<and> (sweep_played_millis_per_tick v = [] \<longrightarrow>
            sweep_played_millis v = Finite 0 \<and> sweep_tick_interval_millis v = Finite 0)
      \<and> (sweep_played_millis_per_tick v \<noteq> [] \<longrightarrow>
            sweep_played_millis_per_tick v ! 0 = Finite 0
            \<and> last (sweep_played_millis_per_tick v) = sweep_played_millis v
            \<and> last (sweep_tick_interval_millis_per_tick v) = sweep_tick_interval_millis v))"

definition intervals_nonneg :: "timeline_sweep \<Rightarrow> bool" where
  "intervals_nonneg v =
     (fle (Finite 0) (sweep_tick_interval_millis v)
      \<and> nonneg_double (sweep_played_millis v)
      \<and> list_all (\<lambda>x. fle (Finite 0) x) (sweep_tick_interval_millis_per_tick v)
      \<and> list_all nonneg_double (sweep_played_millis_per_tick v))"

text \<open>
  What a successful \<open>open_ptfile\<close> leaves in the player \<open>s'\<close>, in terms of the tracks built
  from the chart (\<open>trs0\<close>) and the result of the sweep (\<open>trs2\<close>, \<open>v\<close>).
\<close>

definition open_ptfile_facts ::
  "(nat \<rightharpoonup> pyfloat) \<Rightarrow> pyfloat PTFile \<Rightarrow> GameSequencePlayer \<Rightarrow> GameSequencePlayer
     \<Rightarrow> (nat \<times> GameTrack) list \<Rightarrow> (nat \<times> GameTrack) list \<Rightarrow> timeline_sweep \<Rightarrow> bool" where
  "open_ptfile_facts sound_table ptfile s s' trs0 trs2 v =
     (init_tracks sound_table (effective_tracks (tracks ptfile)) = Inr trs0
         \<and> timeline_loop (header_ticks_per_measure (header ptfile))
               (header_total_ticks (header ptfile)) 0
               (map (\<lambda>(track_index, t).
                      (track_index,
                       GameTrack_set_unit_judge_millis (player_unit_judge_millis s) t)) trs0)
               timeline_start = Inr (trs2, v)
         \<and> tempos_per_tick s' = sweep_tempos_per_tick v
         \<and> player_played_millis_per_tick s' = sweep_played_millis_per_tick v
         \<and> tick_interval_millis_per_tick s' = sweep_tick_interval_millis_per_tick v
         \<and> track_has_any_overlap s' = sweep_has_any_overlap v
         \<and> total_ticks s' = header_total_ticks (header ptfile)
         \<and> ticks_per_measure s' = header_ticks_per_measure (header ptfile)
         \<and> number_of_channels_per_track s' =
               map (\<lambda>(track_index, tr).
                      (track_index,
                       channel_count
                         (map_of (map (\<lambda>(track_index, tr).
                                    (track_index,
                                     list_ex (\<lambda>n. command_type n = GENERAL) (track_notes tr)))
                                  (effective_tracks (tracks ptfile))) track_index = Some True)
                         (map_of (sweep_has_any_overlap v) track_index)
                         (get_track_type track_index)))
                   (effective_tracks (tracks ptfile))
         \<and> total_number_of_channels s' = sum_list (map snd (number_of_channels_per_track s'))
         \<and> pygame_channels s' = [0 ..< total_number_of_channels s']
         \<and> channel_per_track s' =
               map (\<lambda>(track_index, cs). (track_index, GameTrackChannel_init cs))
                 (partition_list_by_size (pygame_channels s') 0 (number_of_channels_per_track s'))
         \<and> set_track_channels (channel_per_track s')
               (map (\<lambda>(track_index, t).
                      (track_index,
                       GameTrack_set_played_millis_per_tick (sweep_played_millis_per_tick v)
                         (t\<lparr>current_index := 0\<rparr>))) trs2) = Inr (game_tracks_dict s'))"

text \<open>Projections of the result of \<open>open_ptfile\<close>.\<close>

definition timeline_of ::
  "error + (GameSequencePlayer \<times> GamePatternPlayer) \<Rightarrow> error + (pyfloat list \<times> pyfloat list \<times> pyfloat list)" where
  "timeline_of r =
     map_sum id (\<lambda>(s', p'). (tempos_per_tick s', player_played_millis_per_tick s',
                             tick_interval_millis_per_tick s')) r"

definition overlap_flags_of ::
  "error + (GameSequencePlayer \<times> GamePatternPlayer) \<Rightarrow> error + (nat \<times> bool) list" where
  "overlap_flags_of r = map_sum id (\<lambda>(s', p'). track_has_any_overlap s') r"


text \<open>
  The tempos processed by the end of tick \<open>t\<close> in a list of note lists, one per track.
\<close>

definition chart_seen_tempos :: "pyfloat PTFileNote list list \<Rightarrow> nat \<Rightarrow> pyfloat set" where
  "chart_seen_tempos nss t =
     (\<Union>ns \<in> set nss. set (List.map_filter tempo_of (processed_notes t ns)))"

definition track_ptnotes :: "(nat \<times> GameTrack) list \<Rightarrow> pyfloat PTFileNote list list" where
  "track_ptnotes trs = map (\<lambda>x. map ptnote (game_notes (snd x))) trs"

text \<open>The processing cursor of every track is inside the notes due by tick \<open>t\<close>.\<close>

definition cursors_within :: "nat \<Rightarrow> (nat \<times> GameTrack) list \<Rightarrow> bool" where
  "cursors_within t trs =
     list_all (\<lambda>x. current_index (snd x)
                     \<le> length (processed_notes t (map ptnote (game_notes (snd x))))) trs"

definition cursors_at :: "nat \<Rightarrow> (nat \<times> GameTrack) list \<Rightarrow> bool" where
  "cursors_at t trs =
     list_all (\<lambda>x. current_index (snd x)
                     = length (processed_notes t (map ptnote (game_notes (snd x))))) trs"
section \<open>Example inputs\<close>

text \<open>
  The millisecond table of a chart with 480 ticks per measure at 125 beats per minute
  (4 ms per tick), and the one at 120 beats per minute, whose interval
  \<open>240000 / 480 / 120\<close> is not a double, so that the sums are rounded.
\<close>

definition example_played_millis :: "pyfloat list" where
  "example_played_millis = map Finite [0, 4, 8, 12, 16, 20, 24, 28, 32, 36, 40, 44, 48]"

definition example_rounded_played_millis :: "pyfloat list" where
  "example_rounded_played_millis =
     map Finite
       [0,
        4691249611844267 / 1125899906842624,
        4691249611844267 / 562949953421312,
        25 / 2,
        4691249611844267 / 281474976710656,
        2932031007402667 / 140737488355328,
        7036874417766401 / 281474976710656,
        2052421705181867 / 70368744177664,
        4691249611844267 / 140737488355328,
        75 / 2,
        5864062014805333 / 140737488355328,
        3225234108142933 / 70368744177664,
        7036874417766399 / 140737488355328]"

definition example_short_note :: GameNote where
  "example_short_note =
     \<lparr>ptnote = \<lparr>position = 0, params = PTFileGeneralNoteParams 1 127 64 0 4\<rparr>,
      sound_duration_millis = Some (Finite 300),
      played_millis_per_tick = example_played_millis,
      unit_judge_millis = 42,
      note_is_playing = False, note_is_played = False,
      note_result_type = None, note_play_result = None\<rparr>"

definition example_offbeat_note :: GameNote where
  "example_offbeat_note =
     \<lparr>ptnote = \<lparr>position = 6, params = PTFileGeneralNoteParams 1 127 64 0 4\<rparr>,
      sound_duration_millis = Some (Finite 300),
      played_millis_per_tick = example_rounded_played_millis,
      unit_judge_millis = 42,
      note_is_playing = False, note_is_played = False,
      note_result_type = None, note_play_result = None\<rparr>"

definition example_long_note :: GameNote where
  "example_long_note =
     \<lparr>ptnote = \<lparr>position = 2, params = PTFileGeneralNoteParams 1 127 64 0 8\<rparr>,
      sound_duration_millis = Some (Finite 300),
      played_millis_per_tick = example_played_millis,
      unit_judge_millis = 42,
      note_is_playing = True, note_is_played = False,
      note_result_type = Some MAX90, note_play_result = None\<rparr>"

definition example_channel :: GameTrackChannel where
  "example_channel = GameTrackChannel_init [0, 1]"

definition example_track :: GameTrack where
  "example_track =
     \<lparr>track_type = FG1, game_notes = [example_short_note],
      track_channel = Some example_channel,
      current_index = 0, current_play_index = 0, track_is_playing = False\<rparr>"

definition example_held_track :: GameTrack where
  "example_held_track =
     \<lparr>track_type = FG1, game_notes = [example_long_note],
      track_channel = Some example_channel,
      current_index = 0, current_play_index = 0, track_is_playing = True\<rparr>"

definition example_player :: GameSequencePlayer where
  "example_player =
     \<lparr>game_tracks_dict = [(3, example_track)], game_mode = FOUR,
      total_ticks = 13, ticks_per_measure = 480, tempo = Finite 125, beat = 4,
      tick_interval_millis = Finite 4, current_tick = 0,
      current_millis = Finite 1126, started_millis = Finite 1000,
      elapsed_millis = Finite 126,
      played_millis = Finite 0, paused_millis = Finite (- 1),
      player_is_playing = True, is_auto_play = False,
      play_intermediate_mr_sound = None,
      player_unit_judge_millis = 42,
      tempos_per_tick = replicate 13 (Finite 125),
      player_played_millis_per_tick = example_played_millis,
      tick_interval_millis_per_tick = replicate 13 (Finite 4),
      track_has_any_overlap = [], track_has_any_general_note = [(3, True)],
      number_of_channels_per_track = [(3, 2)], total_number_of_channels = 2,
      pygame_channels = [0, 1], channel_per_track = [(3, example_channel)]\<rparr>"

definition example_score :: GamePatternPlayer where
  "example_score =
     \<lparr>play_result_count = 7, combo_count = 5, average_accuracy = Finite 90,
      result_type_counts = [MAX100 \<mapsto> 4, MAX90 \<mapsto> 1, MAX1 \<mapsto> 1, BREAK \<mapsto> 1]\<rparr>"

definition example_fresh_score :: GamePatternPlayer where
  "example_fresh_score =
     \<lparr>play_result_count = 0, combo_count = 0, average_accuracy = Finite 0,
      result_type_counts = [MAX100 \<mapsto> 0, MAX90 \<mapsto> 0, MAX1 \<mapsto> 0, BREAK \<mapsto> 0]\<rparr>"

text \<open>Half a second into a chart at 9 beats per minute: the interval is \<open>55.55555555555556\<close>.\<close>

definition example_slow_player :: GameSequencePlayer where
  "example_slow_player =
     example_player\<lparr>tempo := Finite 9,
       tick_interval_millis := Finite (3909374676536889 / 70368744177664),
       current_millis := Finite 1500\<rparr>"

text \<open>Late in a frame of a held long note.\<close>

definition example_held_player :: GameSequencePlayer where
  "example_held_player =
     example_player\<lparr>game_tracks_dict := [(3, example_held_track)],
       current_millis := Finite 1200\<rparr>"

definition example_late_player :: GameSequencePlayer where
  "example_late_player = example_player\<lparr>current_millis := Finite 1200\<rparr>"

definition example_unset_tempo_player :: GameSequencePlayer where
  "example_unset_tempo_player =
     example_player\<lparr>tempo := Finite 0, tick_interval_millis := Finite 0,
       current_millis := Finite 1050\<rparr>"

definition example_header_bytes :: "byte list" where
  "example_header_bytes =
     [80, 84, 70, 70, 1, 0, 224, 1, 0, 0, 240, 66, 1, 0, 13, 0, 0, 0, 0, 0, 0, 0, 1, 0]"

definition example_sound_bytes :: "byte list" where
  "example_sound_bytes = [1, 0, 0, 0, 97, 46, 119, 97, 118] @ replicate 59 0"

definition example_track_bytes :: "byte list \<Rightarrow> byte list" where
  "example_track_bytes magic =
     magic @ [0, 0, 75, 49] @ replicate 62 0 @ [13, 0, 0, 0, 16, 0, 0, 0, 0, 0]"

definition example_note_bytes :: "byte \<Rightarrow> byte list" where
  "example_note_bytes ct = [0, 0, 0, 0, ct, 0, 0, 0, 1, 0, 127, 64, 0, 4, 0, 0]"

definition example_chart_bytes :: "byte list" where
  "example_chart_bytes =
     example_header_bytes @ example_sound_bytes @ example_track_bytes EZTR
       @ example_note_bytes 1"

definition example_gateway :: "byte list \<Rightarrow> error + byte list" where
  "example_gateway b = Inr example_chart_bytes"

definition example_encrypted_bytes :: "byte list" where
  "example_encrypted_bytes = example_header_bytes @ [201, 55, 18, 240] @ replicate 160 90"

definition example_truncated_bytes :: "byte list" where
  "example_truncated_bytes = example_header_bytes @ [1, 0]"

definition example_bad_header_bytes :: "byte list" where
  "example_bad_header_bytes = [80, 84, 70, 88] @ drop 4 example_chart_bytes"

definition example_bad_track_bytes :: "byte list" where
  "example_bad_track_bytes =
     example_header_bytes @ example_sound_bytes @ example_track_bytes [69, 90, 84, 88]
       @ example_note_bytes 1"

definition example_bad_command_bytes :: "byte list" where
  "example_bad_command_bytes =
     example_header_bytes @ example_sound_bytes @ example_track_bytes EZTR
       @ example_note_bytes 9"


definition example_sound_table :: "nat \<rightharpoonup> pyfloat" where
  "example_sound_table = [1 \<mapsto> Finite 300, 2 \<mapsto> Finite 5]"

definition example_general_note :: "nat \<Rightarrow> nat \<Rightarrow> pyfloat PTFileNote" where
  "example_general_note pos si =
     \<lparr>position = pos, params = PTFileGeneralNoteParams si 127 64 0 4\<rparr>"

definition example_ptfile :: "pyfloat PTFile" where
  "example_ptfile =
     \<lparr>header = \<lparr>version_major = 1, version_minor = 0, header_ticks_per_measure = 480,
                 master_bpm = Finite 125, number_of_tracks = 14, header_total_ticks = 4,
                 time_in_seconds = Finite 1, number_of_sounds = 2\<rparr>,
      sounds = [\<lparr>index = 1, command = 0, filename = [97]\<rparr>,
                \<lparr>index = 2, command = 0, filename = [98]\<rparr>],
      tracks =
        [\<lparr>track_name = [], ticks = 4,
           track_notes = [\<lparr>position = 0, params = PTFileBPMChangeNoteParams (Finite 125)\<rparr>]\<rparr>,
         \<lparr>track_name = [], ticks = 4, track_notes = []\<rparr>,
         \<lparr>track_name = [], ticks = 4, track_notes = [example_general_note 1 2]\<rparr>]
        @ replicate 9 \<lparr>track_name = [], ticks = 4, track_notes = []\<rparr>
        @ [\<lparr>track_name = [], ticks = 4,
             track_notes = [example_general_note 0 1, example_general_note 2 1]\<rparr>,
           \<lparr>track_name = [], ticks = 4,
             track_notes = [example_general_note 0 2, example_general_note 2 2]\<rparr>]\<rparr>"

text \<open>A chart of three ticks whose only note is a tempo note at tick 1.\<close>

definition example_tempo_ptfile :: "pyfloat \<Rightarrow> pyfloat PTFile" where
  "example_tempo_ptfile t =
     \<lparr>header = \<lparr>version_major = 1, version_minor = 0, header_ticks_per_measure = 480,
                 master_bpm = Finite 125, number_of_tracks = 1, header_total_ticks = 3,
                 time_in_seconds = Finite 1, number_of_sounds = 0\<rparr>,
      sounds = [],
      tracks =
        [\<lparr>track_name = [], ticks = 3,
           track_notes = [\<lparr>position = 1, params = PTFileBPMChangeNoteParams t\<rparr>]\<rparr>]\<rparr>"

section \<open>Properties of the rounding\<close>

lemma pow2_pos: "0 < pow2 q"
  by (simp add: pow2_def)

lemma pow2_add: "pow2 (a + b) = pow2 a * pow2 b"
  by (simp add: pow2_def power_int_add)

lemma pow2_mono: "a \<le> b \<Longrightarrow> pow2 a \<le> pow2 b"
  by (simp add: pow2_def power_int_increasing)

lemma pow2_strict_mono: "a < b \<Longrightarrow> pow2 a < pow2 b"
  by (simp add: pow2_def power_int_strict_increasing)

lemma pow2_le_iff: "pow2 a \<le> pow2 b \<longleftrightarrow> a \<le> b"
  using pow2_mono [of a b] pow2_strict_mono [of b a] by (auto simp: not_le [symmetric])

lemma pow2_less_iff: "pow2 a < pow2 b \<longleftrightarrow> a < b"
  using pow2_mono [of b a] pow2_strict_mono [of a b] by (auto simp: not_le [symmetric])

lemma pow2_nonneg_int: "0 \<le> q \<Longrightarrow> pow2 q = of_int (2 ^ nat q)"
  by (simp add: pow2_def power_int_def)

lemma search_exponent_good:
  "- 1074 \<le> q \<Longrightarrow> q = - 1074 \<or> pow2 (q + 52) \<le> x \<Longrightarrow> x < pow2 (q + int n + 53)
     \<Longrightarrow> good_exponent (search_exponent n q x) x"
proof (induction n arbitrary: q)
  case 0
  then show ?case by (simp add: good_exponent_def)
next
  case (Suc n)
  show ?case
  proof (cases "x < pow2 (q + 53)")
    case True
    with Suc.prems show ?thesis by (simp add: good_exponent_def)
  next
    case False
    have "good_exponent (search_exponent n (q + 1) x) x"
    proof (rule Suc.IH)
      show "- 1074 \<le> q + 1" using Suc.prems(1) by simp
      show "q + 1 = - 1074 \<or> pow2 (q + 1 + 52) \<le> x"
        using False by (simp add: add.commute add.left_commute)
      show "x < pow2 (q + 1 + int n + 53)"
        using Suc.prems(3) by (simp add: add.commute add.left_commute)
    qed
    with False show ?thesis by simp
  qed
qed

lemma ulp_exponent_good:
  assumes "x < pow2 1024"
  shows "good_exponent (ulp_exponent x) x"
proof -
  have "pow2 1024 \<le> pow2 (- 1074 + int 2200 + 53)"
    by (rule pow2_mono) simp
  with assms have "x < pow2 (- 1074 + int 2200 + 53)" by simp
  then have "good_exponent (search_exponent 2200 (- 1074) x) x"
    by (intro search_exponent_good) simp_all
  then show ?thesis
    by (simp add: ulp_exponent_def Let_def)
qed

lemma good_exponent_mono:
  assumes "good_exponent q x" "good_exponent q' y" "x \<le> y"
  shows "q \<le> q'"
proof (rule ccontr)
  assume "\<not> q \<le> q'"
  then have lt: "q' < q" by simp
  with assms(2) have "q \<noteq> - 1074" by (auto simp: good_exponent_def)
  with assms(1) have "pow2 (q + 52) \<le> x" by (simp add: good_exponent_def)
  also note assms(3)
  also from assms(2) have "y < pow2 (q' + 53)" by (simp add: good_exponent_def)
  finally have "q + 52 < q' + 53" by (simp add: pow2_less_iff)
  with lt show False by simp
qed

lemma good_exponent_unique:
  "good_exponent q x \<Longrightarrow> good_exponent q' x \<Longrightarrow> q = q'"
  using good_exponent_mono [of q x q' x] good_exponent_mono [of q' x q x] by simp

lemma ulp_exponent_eq:
  assumes "good_exponent q x" "x < pow2 1024"
  shows "ulp_exponent x = q"
  using good_exponent_unique [OF ulp_exponent_good assms(1)] assms(2) by simp

lemma overflow_threshold_less: "overflow_threshold < pow2 1024"
  using pow2_pos [of 970] by (simp add: overflow_threshold_def)

lemma round_positive_eq:
  assumes "good_exponent q x" "x < overflow_threshold"
  shows "round_positive x = Finite (of_int (round_half_even (x / pow2 q)) * pow2 q)"
proof -
  from assms(2) overflow_threshold_less have "x < pow2 1024" by simp
  with assms(1) have "ulp_exponent x = q" by (rule ulp_exponent_eq)
  with assms(2) show ?thesis by (simp add: round_positive_def)
qed

lemma round_half_even_of_int: "round_half_even (of_int n) = n"
  by (simp add: round_half_even_def)

lemma round_half_even_bounds: "\<lfloor>m\<rfloor> \<le> round_half_even m \<and> round_half_even m \<le> \<lfloor>m\<rfloor> + 1"
  by (simp add: round_half_even_def Let_def)

lemma round_half_even_mono:
  assumes "m \<le> m'"
  shows "round_half_even m \<le> round_half_even m'"
proof (cases "\<lfloor>m\<rfloor> = \<lfloor>m'\<rfloor>")
  case True
  with assms have "m - of_int \<lfloor>m\<rfloor> \<le> m' - of_int \<lfloor>m'\<rfloor>" by simp
  with True show ?thesis by (auto simp: round_half_even_def Let_def)
next
  case False
  with assms have "\<lfloor>m\<rfloor> < \<lfloor>m'\<rfloor>" using floor_mono [of m m'] by simp
  with round_half_even_bounds [of m] round_half_even_bounds [of m'] show ?thesis by simp
qed

lemma round_positive_mono:
  assumes "0 < x" "x \<le> y"
  shows "fle (round_positive x) (round_positive y)"
proof (cases "overflow_threshold \<le> y")
  case True
  then have "round_positive y = PInf" by (simp add: round_positive_def)
  then show ?thesis by (cases "round_positive x") (simp_all add: round_positive_def Let_def split: if_splits)
next
  case False
  with assms(2) have bx: "x < overflow_threshold" and by': "y < overflow_threshold" by simp_all
  define q where "q = ulp_exponent x"
  define q' where "q' = ulp_exponent y"
  from bx by' overflow_threshold_less have gx: "good_exponent q x" and gy: "good_exponent q' y"
    unfolding q_def q'_def by (auto intro!: ulp_exponent_good)
  from gx gy assms(2) have le: "q \<le> q'" by (rule good_exponent_mono)
  have rx: "round_positive x = Finite (of_int (round_half_even (x / pow2 q)) * pow2 q)"
    using gx bx by (rule round_positive_eq)
  have ry: "round_positive y = Finite (of_int (round_half_even (y / pow2 q')) * pow2 q')"
    using gy by' by (rule round_positive_eq)
  show ?thesis
  proof (cases "q = q'")
    case True
    have "x / pow2 q \<le> y / pow2 q" using assms(2) pow2_pos [of q] by (simp add: divide_right_mono)
    then have "round_half_even (x / pow2 q) \<le> round_half_even (y / pow2 q)"
      by (rule round_half_even_mono)
    then have "of_int (round_half_even (x / pow2 q)) * pow2 q
                 \<le> (of_int (round_half_even (y / pow2 q)) :: rat) * pow2 q"
      using pow2_pos [of q] by (simp add: mult_right_mono)
    with rx ry True show ?thesis by simp
  next
    case False
    with le have lt: "q < q'" by simp
    with gx have "q' \<noteq> - 1074" by (auto simp: good_exponent_def)
    with gy have ylow: "pow2 (q' + 52) \<le> y" by (simp add: good_exponent_def)
    have p52: "pow2 52 = of_int (2 ^ 52)" by (simp add: pow2_nonneg_int)
    have p53: "pow2 53 = of_int (2 ^ 53)" by (simp add: pow2_nonneg_int)
    have "of_int (2 ^ 52) = pow2 (q' + 52) / pow2 q'"
      using pow2_pos [of q'] by (simp add: pow2_add p52)
    also have "\<dots> \<le> y / pow2 q'"
      using ylow pow2_pos [of q'] by (simp add: divide_right_mono)
    finally have "round_half_even (of_int (2 ^ 52)) \<le> round_half_even (y / pow2 q')"
      by (rule round_half_even_mono)
    then have "2 ^ 52 \<le> round_half_even (y / pow2 q')"
      by (simp only: round_half_even_of_int)
    then have "(of_int (2 ^ 52) :: rat) \<le> of_int (round_half_even (y / pow2 q'))"
      by (simp only: of_int_le_iff)
    then have ylb: "pow2 (q' + 52) \<le> of_int (round_half_even (y / pow2 q')) * pow2 q'"
      using pow2_pos [of q'] by (simp add: pow2_add p52 mult.commute mult_left_mono)
    from gx have "x < pow2 (q + 53)" by (simp add: good_exponent_def)
    then have "x / pow2 q \<le> pow2 (q + 53) / pow2 q"
      using pow2_pos [of q] by (simp add: divide_right_mono)
    also have "\<dots> = of_int (2 ^ 53)"
      using pow2_pos [of q] by (simp add: pow2_add p53)
    finally have "round_half_even (x / pow2 q) \<le> round_half_even (of_int (2 ^ 53))"
      by (rule round_half_even_mono)
    then have "round_half_even (x / pow2 q) \<le> 2 ^ 53"
      by (simp only: round_half_even_of_int)
    then have "(of_int (round_half_even (x / pow2 q)) :: rat) \<le> of_int (2 ^ 53)"
      by (simp only: of_int_le_iff)
    then have "of_int (round_half_even (x / pow2 q)) * pow2 q \<le> pow2 (q + 53)"
      using pow2_pos [of q] by (simp add: pow2_add p53 mult.commute mult_left_mono)
    also have "\<dots> \<le> pow2 (q' + 52)" using lt by (intro pow2_mono) simp
    also note ylb
    finally show ?thesis using rx ry by simp
  qed
qed


lemma round_positive_fixed:
  assumes r: "0 < r" "r \<le> 2 ^ 53" and q: "- 1074 \<le> q"
    and b: "of_int r * pow2 q < overflow_threshold"
  shows "round_positive (of_int r * pow2 q) = Finite (of_int r * pow2 q)"
proof -
  define y where "y = of_int r * pow2 q"
  define q' where "q' = ulp_exponent y"
  have p52: "pow2 52 = of_int (2 ^ 52)" by (simp add: pow2_nonneg_int)
  have p53: "pow2 53 = of_int (2 ^ 53)" by (simp add: pow2_nonneg_int)
  from b overflow_threshold_less have "y < pow2 1024" by (simp add: y_def)
  then have g: "good_exponent q' y" unfolding q'_def by (rule ulp_exponent_good)
  from r(2) have "(of_int r :: rat) \<le> of_int (2 ^ 53)" by (simp only: of_int_le_iff)
  then have yub: "y \<le> pow2 (q + 53)"
    using pow2_pos [of q] by (simp add: y_def pow2_add p53 mult_right_mono)
  have "\<exists>k. y / pow2 q' = of_int k"
  proof (cases "q' \<le> q")
    case True
    then have "pow2 q = pow2 q' * pow2 (q - q')" by (simp flip: pow2_add)
    also have "pow2 (q - q') = of_int (2 ^ nat (q - q'))" using True by (simp add: pow2_nonneg_int)
    finally have "y / pow2 q' = of_int (r * 2 ^ nat (q - q'))"
      using pow2_pos [of q'] by (simp add: y_def)
    then show ?thesis by blast
  next
    case False
    with q have "q' \<noteq> - 1074" by simp
    with g have "pow2 (q' + 52) \<le> y" by (simp add: good_exponent_def)
    with yub have "pow2 (q' + 52) \<le> pow2 (q + 53)" by simp
    then have "q' + 52 \<le> q + 53" by (simp only: pow2_le_iff)
    with False have q'eq: "q' = q + 1" by simp
    with \<open>pow2 (q' + 52) \<le> y\<close> have "pow2 (q + 53) \<le> y" by (simp add: add.commute add.left_commute)
    then have "of_int (2 ^ 53) * pow2 q \<le> of_int r * pow2 q"
      by (simp add: y_def pow2_add p53 mult.commute)
    then have "(of_int (2 ^ 53) :: rat) \<le> of_int r"
      using pow2_pos [of q] by (simp only: mult_le_cancel_right_pos)
    then have "2 ^ 53 \<le> r" by (simp only: of_int_le_iff)
    with r(2) have "r = 2 ^ 53" by simp
    moreover have "pow2 (q + 1) = 2 * pow2 q"
      using pow2_add [of q 1] by (simp add: pow2_def)
    ultimately have "y = of_int (2 ^ 52) * pow2 (q + 1)"
      by (simp add: y_def)
    then have "y / pow2 q' = of_int (2 ^ 52)"
      using pow2_pos [of q'] by (simp add: q'eq)
    then show ?thesis by blast
  qed
  then obtain k where k: "y / pow2 q' = of_int k" ..
  then have yk: "y = of_int k * pow2 q'" using pow2_pos [of q'] by (simp add: field_simps)
  have "round_positive y = Finite (of_int (round_half_even (y / pow2 q')) * pow2 q')"
    using g b by (intro round_positive_eq) (simp_all add: y_def)
  also have "\<dots> = Finite y" by (simp only: k round_half_even_of_int yk [symmetric])
  finally show ?thesis by (simp add: y_def)
qed

lemma round_positive_result:
  assumes "0 < x" "round_positive x = Finite y"
  shows "y = 0 \<or> round_positive y = Finite y \<and> 0 < y"
proof -
  from assms(2) have bx: "x < overflow_threshold"
    by (simp add: round_positive_def split: if_splits)
  define q where "q = ulp_exponent x"
  define r where "r = round_half_even (x / pow2 q)"
  have p53: "pow2 53 = of_int (2 ^ 53)" by (simp add: pow2_nonneg_int)
  from bx overflow_threshold_less have g: "good_exponent q x"
    unfolding q_def by (auto intro!: ulp_exponent_good)
  from assms(2) bx have y: "y = of_int r * pow2 q"
    by (simp add: round_positive_def q_def r_def Let_def)
  from g have q: "- 1074 \<le> q" and xub: "x < pow2 (q + 53)" by (simp_all add: good_exponent_def)
  have "of_int 0 \<le> x / pow2 q" using assms(1) pow2_pos [of q] by simp
  then have "round_half_even (of_int 0) \<le> r" unfolding r_def by (rule round_half_even_mono)
  then have r0: "0 \<le> r" by (simp only: round_half_even_of_int)
  from xub have "x / pow2 q \<le> pow2 (q + 53) / pow2 q"
    using pow2_pos [of q] by (simp add: divide_right_mono)
  also have "\<dots> = of_int (2 ^ 53)" using pow2_pos [of q] by (simp add: pow2_add p53)
  finally have "r \<le> round_half_even (of_int (2 ^ 53))" unfolding r_def by (rule round_half_even_mono)
  then have r53: "r \<le> 2 ^ 53" by (simp only: round_half_even_of_int)
  show ?thesis
  proof (cases "r = 0")
    case True
    with y show ?thesis by simp
  next
    case False
    with r0 have rpos: "0 < r" by simp
    have q971: "q \<le> 971"
    proof (rule ccontr)
      assume "\<not> q \<le> 971"
      then have "972 \<le> q" by simp
      with g have "pow2 (q + 52) \<le> x" by (auto simp: good_exponent_def)
      moreover have "pow2 1024 \<le> pow2 (q + 52)" using \<open>972 \<le> q\<close> by (intro pow2_mono) simp
      ultimately show False using bx overflow_threshold_less by simp
    qed
    have yb: "y < overflow_threshold"
    proof (cases "q = 971")
      case True
      have thr: "overflow_threshold = (of_int (2 ^ 53) - 1 / 2) * pow2 971"
      proof -
        have "pow2 1024 = pow2 971 * pow2 53" by (simp flip: pow2_add)
        moreover have "pow2 971 = pow2 970 * pow2 1" by (simp flip: pow2_add)
        moreover have "pow2 1 = 2" by (simp add: pow2_def)
        ultimately show ?thesis by (simp add: overflow_threshold_def p53 algebra_simps)
      qed
      from bx have "x / pow2 971 < of_int (2 ^ 53) - 1 / 2"
        using pow2_pos [of 971] by (simp add: thr pos_divide_less_eq)
      then have m: "x / pow2 q < of_int (2 ^ 53) - 1 / 2" by (simp add: True)
      have "r \<le> 2 ^ 53 - 1"
      proof (cases "\<lfloor>x / pow2 q\<rfloor> \<le> 2 ^ 53 - 2")
        case True
        with round_half_even_bounds [of "x / pow2 q"] show ?thesis unfolding r_def by linarith
      next
        case False
        have "x / pow2 q \<le> of_int (2 ^ 53)" using m by linarith
        then have "\<lfloor>x / pow2 q\<rfloor> \<le> \<lfloor>(of_int (2 ^ 53) :: rat)\<rfloor>"
          by (rule floor_mono)
        then have "\<lfloor>x / pow2 q\<rfloor> \<le> 2 ^ 53" by (simp only: floor_of_int)
        moreover have "\<lfloor>x / pow2 q\<rfloor> \<noteq> 2 ^ 53"
        proof
          assume "\<lfloor>x / pow2 q\<rfloor> = 2 ^ 53"
          then have "of_int (2 ^ 53) \<le> x / pow2 q" by (metis of_int_floor_le)
          with m show False by linarith
        qed
        ultimately have fl: "\<lfloor>x / pow2 q\<rfloor> = 2 ^ 53 - 1" using False by linarith
        then have "(of_int \<lfloor>x / pow2 q\<rfloor> :: rat) = of_int (2 ^ 53) - 1" by simp
        with m have "x / pow2 q - of_int \<lfloor>x / pow2 q\<rfloor> < 1 / 2" by linarith
        then have "r = \<lfloor>x / pow2 q\<rfloor>" by (simp add: r_def round_half_even_def Let_def)
        with fl show ?thesis by simp
      qed
      then have "(of_int r :: rat) \<le> of_int (2 ^ 53 - 1)" by (simp only: of_int_le_iff)
      then have "(of_int r :: rat) < of_int (2 ^ 53) - 1 / 2" by simp
      then show ?thesis using pow2_pos [of 971] by (simp add: y thr True)
    next
      case False
      with q971 have "q \<le> 970" by simp
      from r53 have "(of_int r :: rat) \<le> of_int (2 ^ 53)" by (simp only: of_int_le_iff)
      then have "y \<le> pow2 (q + 53)"
        using pow2_pos [of q] by (simp add: y pow2_add p53 mult_right_mono)
      also have "\<dots> \<le> pow2 1023" using \<open>q \<le> 970\<close> by (intro pow2_mono) simp
      also have "\<dots> < overflow_threshold"
      proof -
        have "pow2 1024 = pow2 1023 * pow2 1" by (simp flip: pow2_add)
        moreover have "pow2 1 = 2" by (simp add: pow2_def)
        moreover have "pow2 970 < pow2 1023" by (intro pow2_strict_mono) simp
        ultimately show ?thesis by (simp add: overflow_threshold_def)
      qed
      finally show ?thesis .
    qed
    have "round_positive y = Finite y"
      unfolding y using rpos r53 q yb [unfolded y] by (rule round_positive_fixed)
    moreover have "0 < y" using rpos pow2_pos [of q] by (simp add: y)
    ultimately show ?thesis by simp
  qed
qed

lemma round_double_nonneg:
  assumes "0 \<le> x"
  shows "fle (Finite 0) (round_double x)"
proof (cases "x = 0")
  case True
  then show ?thesis by (simp add: round_double_def)
next
  case False
  with assms have pos: "0 < x" by simp
  show ?thesis
  proof (cases "round_positive x")
    case (Finite y)
    with round_positive_result [OF pos Finite] pos show ?thesis
      by (auto simp: round_double_def)
  qed (use pos in \<open>simp_all add: round_double_def round_positive_def Let_def split: if_splits\<close>)
qed

lemma round_double_fixed:
  assumes "0 \<le> x" "round_double x = Finite y"
  shows "round_double y = Finite y"
proof (cases "x = 0")
  case True
  with assms(2) show ?thesis by (auto simp: round_double_def)
next
  case False
  with assms have pos: "0 < x" and "round_positive x = Finite y" by (simp_all add: round_double_def)
  from round_positive_result [OF this] show ?thesis by (auto simp: round_double_def)
qed

lemma round_double_mono:
  assumes "0 \<le> x" "x \<le> y"
  shows "fle (round_double x) (round_double y)"
proof (cases "x = 0")
  case True
  with assms round_double_nonneg [of y] show ?thesis by (simp add: round_double_def)
next
  case False
  with assms have "0 < x" "0 < y" by simp_all
  with round_positive_mono [OF \<open>0 < x\<close> assms(2)] show ?thesis by (simp add: round_double_def)
qed

lemma round_double_eq:
  assumes "0 < x" "- 1074 \<le> q" "q \<le> 970" "x < pow2 (q + 53)" "q = - 1074 \<or> pow2 (q + 52) \<le> x"
  shows "round_double x = Finite (of_int (round_half_even (x / pow2 q)) * pow2 q)"
proof -
  have g: "good_exponent q x" using assms by (simp add: good_exponent_def)
  have "pow2 (q + 53) \<le> pow2 1023" using assms(3) by (intro pow2_mono) simp
  also have "\<dots> < overflow_threshold"
  proof -
    have "pow2 1024 = pow2 1023 * pow2 1" by (simp flip: pow2_add)
    moreover have "pow2 1 = 2" by (simp add: pow2_def)
    moreover have "pow2 970 < pow2 1023" by (intro pow2_strict_mono) simp
    ultimately show ?thesis by (simp add: overflow_threshold_def)
  qed
  finally have "x < overflow_threshold" using assms(4) by simp
  with g have "round_positive x = Finite (of_int (round_half_even (x / pow2 q)) * pow2 q)"
    by (rule round_positive_eq)
  with assms(1) show ?thesis by (simp add: round_double_def)
qed

lemma fneg_fneg: "fneg (fneg a) = a"
  by (cases a) simp_all

lemma round_double_minus: "round_double (- x) = fneg (round_double x)"
  by (simp add: round_double_def fneg_fneg)

lemma floor_rat_numeral: "\<lfloor>numeral a / numeral b :: rat\<rfloor> = numeral a div numeral b"
  by (metis floor_divide_of_int_eq of_int_numeral)

lemma round_double_of_int:
  assumes "\<bar>n\<bar> \<le> 2 ^ 53"
  shows "round_double (of_int n) = Finite (of_int n)"
proof -
  have pos: "round_double (of_int k) = Finite (of_int k)" if "0 < k" "k \<le> 2 ^ 53" for k
  proof -
    have "(of_int k :: rat) \<le> of_int (2 ^ 53)" using that(2) by (simp only: of_int_le_iff)
    also have "\<dots> = pow2 53" by (simp add: pow2_nonneg_int)
    also have "\<dots> < pow2 1023" by (intro pow2_strict_mono) simp
    also have "\<dots> < overflow_threshold"
    proof -
      have "pow2 1024 = pow2 1023 * pow2 1" by (simp flip: pow2_add)
      moreover have "pow2 1 = 2" by (simp add: pow2_def)
      moreover have "pow2 970 < pow2 1023" by (intro pow2_strict_mono) simp
      ultimately show ?thesis by (simp add: overflow_threshold_def)
    qed
    finally have "of_int k * pow2 0 < overflow_threshold" by (simp add: pow2_def)
    with that have "round_positive (of_int k * pow2 0) = Finite (of_int k * pow2 0)"
      by (intro round_positive_fixed) simp_all
    with that(1) show ?thesis by (simp add: round_double_def pow2_def)
  qed
  consider "n = 0" | "0 < n" | "n < 0" by linarith
  then show ?thesis
  proof cases
    case 1
    then show ?thesis by (simp add: round_double_def)
  next
    case 2
    with assms show ?thesis by (intro pos) simp_all
  next
    case 3
    with assms have "round_double (of_int (- n)) = Finite (of_int (- n))" by (intro pos) simp_all
    then have "fneg (round_double (of_int n)) = Finite (- of_int n)"
      by (simp add: round_double_minus)
    then show ?thesis by (cases "round_double (rat_of_int n)") simp_all
  qed
qed

lemma pow2_1023_less: "pow2 1023 < overflow_threshold"
proof -
  have "pow2 1024 = pow2 1023 * pow2 1" by (simp flip: pow2_add)
  moreover have "pow2 1 = 2" by (simp add: pow2_def)
  moreover have "pow2 970 < pow2 1023" by (intro pow2_strict_mono) simp
  ultimately show ?thesis by (simp add: overflow_threshold_def)
qed

lemma round_double_dyadic:
  assumes "\<bar>r\<bar> \<le> 2 ^ 53" "- 1074 \<le> q" "q \<le> 970"
  shows "round_double (of_int r * pow2 q) = Finite (of_int r * pow2 q)"
proof -
  have pos: "round_double (of_int k * pow2 q) = Finite (of_int k * pow2 q)"
    if "0 < k" "k \<le> 2 ^ 53" for k
  proof -
    have "(of_int k :: rat) \<le> of_int (2 ^ 53)" using that(2) by (simp only: of_int_le_iff)
    then have "of_int k * pow2 q \<le> pow2 53 * pow2 q"
      using pow2_pos [of q] by (simp add: pow2_nonneg_int mult_right_mono)
    also have "\<dots> = pow2 (53 + q)" by (simp add: pow2_add)
    also have "\<dots> \<le> pow2 1023" using assms(3) by (intro pow2_mono) simp
    also note pow2_1023_less
    finally have "round_positive (of_int k * pow2 q) = Finite (of_int k * pow2 q)"
      using that assms(2) by (intro round_positive_fixed) simp_all
    moreover have "0 < of_int k * pow2 q" using that(1) pow2_pos [of q] by simp
    ultimately show ?thesis by (simp add: round_double_def)
  qed
  consider "r = 0" | "0 < r" | "r < 0" by linarith
  then show ?thesis
  proof cases
    case 1
    then show ?thesis by (simp add: round_double_def)
  next
    case 2
    with assms show ?thesis by (intro pos) simp_all
  next
    case 3
    with assms have "round_double (of_int (- r) * pow2 q) = Finite (of_int (- r) * pow2 q)"
      by (intro pos) simp_all
    then have "fneg (round_double (of_int r * pow2 q)) = Finite (- (of_int r * pow2 q))"
      using round_double_minus [of "of_int r * pow2 q"] by simp
    then show ?thesis by (cases "round_double (of_int r * pow2 q)") simp_all
  qed
qed

lemma fle_not_flt: "fle a b \<Longrightarrow> \<not> flt b a"
  by (cases a; cases b) simp_all

lemma fle_refl_Finite: "fle (Finite x) (Finite x)"
  by simp

lemma fle_trans: "fle a b \<Longrightarrow> fle b c \<Longrightarrow> fle a c"
  by (cases a; cases b; cases c) simp_all

lemma round_double_0: "round_double 0 = Finite 0"
  by (simp add: round_double_def)

lemma round_double_numeral:
  "numeral k \<le> (2 ^ 53 :: int) \<Longrightarrow> round_double (numeral k) = Finite (numeral k)"
  using round_double_of_int [of "numeral k"] by simp

lemma round_double_1: "round_double 1 = Finite 1"
  using round_double_of_int [of 1] by simp

lemma round_double_neg_numeral:
  "numeral k \<le> (2 ^ 53 :: int) \<Longrightarrow> round_double (- numeral k) = Finite (- numeral k)"
  using round_double_of_int [of "- numeral k"] by simp

lemmas round_double_int = round_double_0 round_double_1 round_double_numeral round_double_neg_numeral

lemma flt_fabs_twice:
  "flt (fabs x) (float_of_int u) \<Longrightarrow> fle (float_of_int (2 * u)) (fabs x) \<Longrightarrow> False"
  by (cases x) (simp_all add: float_of_int_def)

text \<open>The rounding of a number below \<open>2 ^ 1023\<close> needs no comparison with the overflow threshold.\<close>

lemma round_positive_code [code]:
  "round_positive x =
     (let q = ulp_exponent x
      in if q \<le> 970 \<and> good_exponent q x
         then Finite (of_int (round_half_even (x / pow2 q)) * pow2 q)
         else if overflow_threshold \<le> x then PInf
         else Finite (of_int (round_half_even (x / pow2 q)) * pow2 q))"
proof -
  have "x < overflow_threshold" if "ulp_exponent x \<le> 970" "good_exponent (ulp_exponent x) x"
  proof -
    from that(2) have "x < pow2 (ulp_exponent x + 53)" by (simp add: good_exponent_def)
    also have "\<dots> \<le> pow2 1023" using that(1) by (intro pow2_mono) simp
    also note pow2_1023_less
    finally show ?thesis .
  qed
  then show ?thesis by (auto simp: round_positive_def Let_def)
qed
section \<open>Judgment of a key-down and a key-up\<close>

text \<open>
  Claim C1.  For a note whose position is in the millisecond table, with
  \<open>diff = notePositionMillis - currentMillis\<close> as the program computes it (a float
  subtraction): a press with \<open>diff > 3 * unitJudgeMillis\<close> is ignored and leaves the note as
  it was; otherwise the grade is MAX100 for \<open>|diff| < unit\<close>, MAX90 for
  \<open>unit \<le> |diff| < 2 * unit\<close> and MAX1 for \<open>2 * unit \<le> |diff| < 3 * unit\<close> (42, 84 and 126
  at the default unit of 42); a short note becomes Played and returns a result with that
  grade and \<open>timing_diff = currentMillis - notePositionMillis\<close>; a long note becomes Playing
  and keeps the grade in the note.
\<close>

theorem C1_start_play_judgment:
  assumes pm: "get_position_millis g = Inr pm"
  shows "(flt (float_of_int (3 * unit_judge_millis g)) (fsub pm cur) \<longrightarrow>
            GameNote_start_play g cur = Inr (g, None))
       \<and> (\<not> flt (float_of_int (3 * unit_judge_millis g)) (fsub pm cur) \<longrightarrow>
            (\<exists>g' r. GameNote_start_play g cur = Inr (g', r)
              \<and> (flt (fabs (fsub pm cur)) (float_of_int (unit_judge_millis g))
                    \<longrightarrow> note_result_type g' = Some MAX100)
              \<and> (fle (float_of_int (unit_judge_millis g)) (fabs (fsub pm cur))
                  \<and> flt (fabs (fsub pm cur)) (float_of_int (2 * unit_judge_millis g))
                    \<longrightarrow> note_result_type g' = Some MAX90)
              \<and> (fle (float_of_int (2 * unit_judge_millis g)) (fabs (fsub pm cur))
                  \<and> flt (fabs (fsub pm cur)) (float_of_int (3 * unit_judge_millis g))
                    \<longrightarrow> note_result_type g' = Some MAX1)
              \<and> (is_short g \<longrightarrow>
                    note_is_played g' \<and> note_is_playing g' = note_is_playing g
                    \<and> r = Some \<lparr>result_type = note_result_type g',
                                timing_diff = Some (fsub cur pm), reason = None\<rparr>
                    \<and> note_play_result g' = r)
              \<and> (is_long g \<longrightarrow>
                    note_is_playing g' \<and> note_is_played g' = note_is_played g
                    \<and> note_play_result g' = note_play_result g
                    \<and> r = note_play_result g)))"
  using pm
  by (auto simp: GameNote_start_play_def Let_def is_short_def is_long_def
      dest: fle_not_flt flt_fabs_twice)

text \<open>
  The note at tick 6 of a chart at 120 beats per minute is due at
  \<open>25.000000000000004\<close> ms.  For a press at 67 ms the difference rounds to \<open>-42.0\<close>, which
  is MAX90.
\<close>

theorem C1_start_play_judgment_witness:
  "get_position_millis example_offbeat_note = Inr (Finite (7036874417766401 / 281474976710656))
   \<and> is_short example_offbeat_note
   \<and> fsub (Finite (7036874417766401 / 281474976710656)) (Finite 67) = Finite (- 42)
   \<and> (\<exists>g'. GameNote_start_play example_offbeat_note (Finite 67) =
         Inr (g', Some \<lparr>result_type = Some MAX90, timing_diff = Some (Finite 42),
                         reason = None\<rparr>)
        \<and> note_is_played g')"
proof -
  let ?pm = "Finite (7036874417766401 / 281474976710656)"
  have h: "get_position_millis example_offbeat_note = Inr ?pm"
    by (simp add: get_position_millis_def get_position_def list_get_def example_offbeat_note_def
        example_rounded_played_millis_def)
  have s: "is_short example_offbeat_note"
    by (simp add: is_short_def is_long_def example_offbeat_note_def)
  have u: "unit_judge_millis example_offbeat_note = 42"
    by (simp add: example_offbeat_note_def)
  have r: "round_double (11821949021847551 / 281474976710656) = Finite 42"
    using round_double_eq [of "11821949021847551 / 281474976710656" "- 47"]
    by (simp add: pow2_def round_half_even_def Let_def floor_rat_numeral)
  have d1: "fsub ?pm (Finite 67) = Finite (- 42)"
    using round_double_minus [of "11821949021847551 / 281474976710656"]
    by (simp add: fsub_def r)
  have d2: "fsub (Finite 67) ?pm = Finite 42"
    by (simp add: fsub_def r)
  from C1_start_play_judgment [OF h, of "Finite 67"] s u d1 d2 show ?thesis
    using h by (auto simp: float_of_int_def)
qed

text \<open>
  Claim C6.  A long note that is Playing becomes Played on \<open>finish_play\<close>; when
  \<open>endPositionMillis - currentMillis > 3 * unitJudgeMillis\<close> the grade is BREAK with reason
  TooEarlyToFinish whatever was recorded at the start, otherwise the recorded grade is kept;
  in both cases \<open>timing_diff = currentMillis - endPositionMillis\<close>.  Differences are float
  subtractions.
\<close>

theorem C6_finish_play:
  assumes long: "is_long g" and playing: "note_is_playing g"
      and em: "get_end_position_millis g = Inr em"
  shows "\<exists>g' r. GameNote_finish_play g cur = Inr (g', Some r)
           \<and> note_is_played g' \<and> \<not> note_is_playing g'
           \<and> note_play_result g' = Some r
           \<and> timing_diff r = Some (fsub cur em)
           \<and> (flt (float_of_int (3 * unit_judge_millis g)) (fsub em cur) \<longrightarrow>
                 result_type r = Some BREAK \<and> reason r = Some TOO_EARLY_TO_FINISH
                 \<and> note_result_type g' = Some BREAK)
           \<and> (\<not> flt (float_of_int (3 * unit_judge_millis g)) (fsub em cur) \<longrightarrow>
                 result_type r = note_result_type g \<and> reason r = None
                 \<and> note_result_type g' = note_result_type g)"
  using assms
  by (auto simp: GameNote_finish_play_def Let_def is_too_early_to_finish_def is_long_def
      get_end_position_millis_def get_end_position_def get_duration_def get_position_def)

theorem C6_finish_play_witness:
  "is_long example_long_note \<and> note_is_playing example_long_note
   \<and> get_end_position_millis example_long_note = Inr (Finite 40)
   \<and> (\<exists>g' r. GameNote_finish_play example_long_note (Finite (- 200)) = Inr (g', Some r)
         \<and> note_is_played g' \<and> result_type r = Some BREAK
         \<and> reason r = Some TOO_EARLY_TO_FINISH \<and> timing_diff r = Some (Finite (- 240)))
   \<and> (\<exists>g' r. GameNote_finish_play example_long_note (Finite 42) = Inr (g', Some r)
         \<and> note_is_played g' \<and> result_type r = Some MAX90
         \<and> reason r = None \<and> timing_diff r = Some (Finite 2))"
proof -
  have l: "is_long example_long_note"
    by (simp add: is_long_def example_long_note_def)
  have p: "note_is_playing example_long_note"
    by (simp add: example_long_note_def)
  have e: "get_end_position_millis example_long_note = Inr (Finite 40)"
    by (simp add: get_end_position_millis_def get_end_position_def get_duration_def
        get_position_def list_get_def example_long_note_def example_played_millis_def)
  have u: "unit_judge_millis example_long_note = 42"
    and r: "note_result_type example_long_note = Some MAX90"
    by (simp_all add: example_long_note_def)
  have d: "fsub (Finite 40) (Finite (- 200)) = Finite 240"
    "fsub (Finite (- 200)) (Finite 40) = Finite (- 240)"
    "fsub (Finite 40) (Finite 42) = Finite (- 2)"
    "fsub (Finite 42) (Finite 40) = Finite 2"
    by (simp_all add: fsub_def round_double_int)
  from C6_finish_play [OF l p e, of "Finite (- 200)"] C6_finish_play [OF l p e, of "Finite 42"]
    l p e u r d
  show ?thesis by (auto simp: float_of_int_def)
qed

section \<open>Score aggregator\<close>

lemma fdiv_count:
  "\<exists>x. fdiv a (float_of_int (int (Suc n))) = Inr x"
  by (simp add: float_of_int_def del: of_nat_Suc)

text \<open>
  Claim C9.  Each call of \<open>on_play_result\<close> with a graded result adds exactly 1 to the
  result count, sets the combo to exactly 0 for BREAK and adds exactly 1 to it for any
  other grade, and adds exactly 1 to the counter of the result's grade (the other
  counters stay).  The aggregator state \<open>p\<close> is arbitrary, so this holds after any
  sequence of earlier results.
\<close>

theorem C9_on_play_result:
  assumes "result_type r = Some g"
  shows "\<exists>p'. on_play_result r p = Inr p'
           \<and> play_result_count p' = play_result_count p + 1
           \<and> combo_count p' = (if g = BREAK then 0 else combo_count p + 1)
           \<and> result_type_counts p' g =
                Some ((case result_type_counts p g of None \<Rightarrow> 0 | Some k \<Rightarrow> k) + 1)
           \<and> (\<forall>g'. g' \<noteq> g \<longrightarrow> result_type_counts p' g' = result_type_counts p g')"
proof -
  obtain w where w: "fdiv (fmul (average_accuracy p) (float_of_int (int (play_result_count p + 1) - 1)))
                       (float_of_int (int (play_result_count p + 1))) = Inr w"
    using fdiv_count [of _ "play_result_count p"] by auto
  obtain sh where sh: "fdiv (float_of_int (grade_value g))
                         (float_of_int (int (play_result_count p + 1))) = Inr sh"
    using fdiv_count [of _ "play_result_count p"] by auto
  show ?thesis
    using assms w sh by (simp add: on_play_result_def Let_def)
qed

theorem C9_on_play_result_witness:
  "(\<exists>p'. on_play_result \<lparr>result_type = Some BREAK, timing_diff = Some (Finite 130),
                          reason = Some TOO_LATE_TO_START\<rparr> example_score = Inr p'
         \<and> play_result_count p' = 8 \<and> combo_count p' = 0
         \<and> result_type_counts p' BREAK = Some 2)
   \<and> (\<exists>p'. on_play_result \<lparr>result_type = Some MAX90, timing_diff = Some (Finite 50),
                          reason = None\<rparr> example_score = Inr p'
         \<and> play_result_count p' = 8 \<and> combo_count p' = 6
         \<and> result_type_counts p' MAX90 = Some 2)"
  using C9_on_play_result [of "\<lparr>result_type = Some BREAK, timing_diff = Some (Finite 130),
                          reason = Some TOO_LATE_TO_START\<rparr>" BREAK example_score]
        C9_on_play_result [of "\<lparr>result_type = Some MAX90, timing_diff = Some (Finite 50),
                          reason = None\<rparr>" MAX90 example_score]
  by (auto simp: example_score_def)

section \<open>A key-down outside every grade window\<close>

lemma map_of_dict_set:
  "map_of d k = Some v \<Longrightarrow> map_of (dict_set d k v') k = Some v'"
  by (induction d) (auto simp: dict_set_def split: if_splits)

lemma GameNote_start_play_ungraded:
  assumes "get_position_millis n = Inr pm" "is_short n"
      and "\<not> flt (float_of_int (3 * unit_judge_millis n)) (fsub pm cur)"
      and "fle (float_of_int (3 * unit_judge_millis n)) (fabs (fsub pm cur))"
  shows "GameNote_start_play n cur =
           Inr (n\<lparr>note_is_played := True,
                  note_play_result := Some \<lparr>result_type = note_result_type n,
                     timing_diff = Some (fsub cur pm), reason = None\<rparr>\<rparr>,
                Some \<lparr>result_type = note_result_type n,
                     timing_diff = Some (fsub cur pm), reason = None\<rparr>)"
proof -
  from assms(4) have a: "\<not> flt (fabs (fsub pm cur)) (float_of_int (3 * unit_judge_millis n))"
    by (rule fle_not_flt)
  have b: "\<not> flt (fabs (fsub pm cur)) (float_of_int (unit_judge_millis n))"
    "\<not> flt (fabs (fsub pm cur)) (float_of_int (2 * unit_judge_millis n))"
    using assms(4) by (cases "fsub pm cur"; simp add: float_of_int_def)+
  show ?thesis
    using assms(1-3) a b by (simp add: GameNote_start_play_def Let_def)
qed

text \<open>
  Claim C10.  A key-down on a short general head note that has no grade yet, with
  \<open>diff = notePositionMillis - currentMillis\<close> (a float subtraction) not above
  \<open>3 * unitJudgeMillis\<close> but
  \<open>|diff| \<ge> 3 * unitJudgeMillis\<close>: \<open>start_play\<close> marks the note Played and returns a
  result whose \<open>result_type\<close> is \<open>None\<close>; \<open>play_button\<close> leaves the score aggregator as
  it was, and the judgment cursor has moved past the note.
\<close>

theorem C10_ungraded_key_down:
  assumes tr: "map_of (game_tracks_dict s) (get_track_index button) = Some t"
      and up: "\<not> track_is_playing t"
      and hd: "get_play_head_note t = Some n"
      and gen: "is_general n" and short: "is_short n"
      and fresh: "note_result_type n = None"
      and ch: "track_channel t = Some c" "channel_index c < length (channels c)"
      and pm: "get_position_millis n = Inr pm"
      and notearly: "\<not> flt (float_of_int (3 * unit_judge_millis n)) (fsub pm (elapsed_millis s))"
      and ungraded: "fle (float_of_int (3 * unit_judge_millis n)) (fabs (fsub pm (elapsed_millis s)))"
  shows "\<exists>s' t' n'. play_button button KEYDOWN s p = Inr (s', p)
           \<and> GameNote_start_play n (elapsed_millis s) =
                Inr (n', Some \<lparr>result_type = None,
                               timing_diff = Some (fsub (elapsed_millis s) pm), reason = None\<rparr>)
           \<and> note_is_played n' \<and> note_result_type n' = None
           \<and> map_of (game_tracks_dict s') (get_track_index button) = Some t'
           \<and> game_notes t' = (game_notes t)[current_play_index t := n']
           \<and> current_play_index t < current_play_index t'"
proof -
  let ?cur = "elapsed_millis s"
  let ?r = "\<lparr>result_type = None, timing_diff = Some (fsub ?cur pm), reason = None\<rparr>"
  let ?n' = "n\<lparr>note_is_played := True, note_play_result := Some ?r\<rparr>"
  have sp: "GameNote_start_play n ?cur = Inr (?n', Some ?r)"
    using GameNote_start_play_ungraded [OF pm short notearly ungraded] fresh by simp
  obtain c' where ps: "play_sound c = Inr c'"
    using ch(2) by (auto simp: play_sound_def find_free_channel_def list_get_def Let_def)
  have gp: "GameNote_process n (Some c) s = Inr (Some c', s)"
    using gen ps
    by (cases "params (ptnote n)")
       (auto simp: GameNote_process_def is_general_def command_type_def)
  have lt: "current_play_index t < length (game_notes t)"
    using hd by (simp add: get_play_head_note_def split: if_splits)
  let ?t2 = "t\<lparr>track_is_playing := True, track_channel := Some c',
               game_notes := (game_notes t)[current_play_index t := ?n']\<rparr>"
  let ?t' = "increment_play_index ?t2"
  have hd1: "get_play_head_note (t\<lparr>track_is_playing := True\<rparr>) = Some n"
    using hd by (auto simp: get_play_head_note_def split: if_splits)
  have tsp: "GameTrack_start_play t ?cur s = Inr (?t', s, Some ?r)"
    using up hd1 sp gp ch(1)
    by (simp add: GameTrack_start_play_def Let_def)
  let ?s' = "s\<lparr>game_tracks_dict := dict_set (game_tracks_dict s) (get_track_index button) ?t'\<rparr>"
  have pb: "play_button button KEYDOWN s p = Inr (?s', p)"
    using tr tsp by (simp add: play_button_def Let_def report_play_result_def)
  have m: "map_of (game_tracks_dict ?s') (get_track_index button) = Some ?t'"
    using map_of_dict_set [OF tr] by simp
  have gn: "game_notes ?t' = (game_notes t)[current_play_index t := ?n']"
    by (simp add: increment_play_index_def set_play_index_def)
  from lt have "current_play_index t + 1 \<le> length ((game_notes t)[current_play_index t := ?n'])"
    by simp
  from find_note_index_bounds [OF this, of is_playable]
  have adv: "current_play_index t < current_play_index ?t'"
    by (simp add: increment_play_index_def set_play_index_def)
  show ?thesis
    using pb sp m gn adv by (intro exI [of _ ?s'] exI [of _ ?t'] exI [of _ ?n']) (simp add: fresh)
qed

theorem C10_ungraded_key_down_witness:
  "is_general example_short_note \<and> is_short example_short_note
   \<and> get_play_head_note example_track = Some example_short_note
   \<and> get_position_millis example_short_note = Inr (Finite 0)
   \<and> elapsed_millis example_player = Finite 126
   \<and> (\<exists>s' n'. play_button BUTTON1 KEYDOWN example_player example_score = Inr (s', example_score)
         \<and> GameNote_start_play example_short_note (Finite 126) =
              Inr (n', Some \<lparr>result_type = None, timing_diff = Some (Finite 126),
                              reason = None\<rparr>)
         \<and> note_is_played n')"
proof -
  have tr: "map_of (game_tracks_dict example_player) (get_track_index BUTTON1) = Some example_track"
    by (simp add: example_player_def)
  have up: "\<not> track_is_playing example_track"
    by (simp add: example_track_def)
  have hd: "get_play_head_note example_track = Some example_short_note"
    by (simp add: get_play_head_note_def example_track_def)
  have gen: "is_general example_short_note"
    by (simp add: is_general_def command_type_def example_short_note_def)
  have short: "is_short example_short_note"
    by (simp add: is_short_def is_long_def example_short_note_def)
  have fresh: "note_result_type example_short_note = None"
    by (simp add: example_short_note_def)
  have ch: "track_channel example_track = Some example_channel"
    "channel_index example_channel < length (channels example_channel)"
    by (simp_all add: example_track_def example_channel_def GameTrackChannel_init_def)
  have pm: "get_position_millis example_short_note = Inr (Finite 0)"
    by (simp add: get_position_millis_def get_position_def list_get_def example_short_note_def
        example_played_millis_def)
  have el: "elapsed_millis example_player = Finite 126"
    by (simp add: example_player_def)
  have u: "unit_judge_millis example_short_note = 42"
    by (simp add: example_short_note_def)
  have d: "fsub (Finite 0) (Finite 126) = Finite (- 126)"
    "fsub (Finite 126) (Finite 0) = Finite 126"
    by (simp_all add: fsub_def round_double_int)
  have ne: "\<not> flt (float_of_int (3 * unit_judge_millis example_short_note))
               (fsub (Finite 0) (elapsed_millis example_player))"
    and ug: "fle (float_of_int (3 * unit_judge_millis example_short_note))
               (fabs (fsub (Finite 0) (elapsed_millis example_player)))"
    by (simp_all add: el u d float_of_int_def)
  from C10_ungraded_key_down [OF tr up hd gen short fresh ch pm ne ug, of example_score]
  show ?thesis using gen short hd pm el d by auto
qed

section \<open>The stages of a frame\<close>

lemma on_tick_result:
  assumes "player_is_playing s" "on_tick s p = Inr (s', p')"
  shows "\<exists>s1 s2 s3 ns s4 d. on_tick_stages s p s' p' s1 s2 s3 ns s4 d"
proof -
  from assms obtain s1 where s1: "on_tick_intermediate_mr_sound (on_tick_clock s) = Inr s1"
    by (cases "on_tick_intermediate_mr_sound (on_tick_clock s)") (auto simp: on_tick_def)
  from assms s1 obtain s2 where s2: "on_tick_advance s1 = Inr s2"
    by (cases "on_tick_advance s1") (auto simp: on_tick_def)
  obtain s3 ns where dr: "on_tick_drain s2 = (s3, ns)"
    by (cases "on_tick_drain s2")
  from assms s1 s2 dr obtain s4 where s4: "process_notes ns s3 = Inr s4"
    by (cases "process_notes ns s3") (auto simp: on_tick_def)
  from assms s1 s2 dr s4 obtain d where
    "sweep_tracks (elapsed_millis s4) (is_auto_play s4) (game_mode s4)
       (game_tracks_dict s4) p = Inr (d, p')"
    "s' = (if int (total_ticks s4) < current_tick s4
           then s4\<lparr>game_tracks_dict := d, player_is_playing := False\<rparr>
           else s4\<lparr>game_tracks_dict := d\<rparr>)"
    by (cases "sweep_tracks (elapsed_millis s4) (is_auto_play s4) (game_mode s4)
                 (game_tracks_dict s4) p")
       (auto simp: on_tick_def Let_def)
  with s1 s2 dr s4 show ?thesis
    unfolding on_tick_stages_def by blast
qed

lemma fdiv_Inr_cases:
  "fdiv a b = Inr x \<Longrightarrow> b \<noteq> Finite 0"
  by (cases b) (auto split: if_splits)

lemma set_tempo_fields:
  "set_tempo s t = Inr s' \<Longrightarrow>
     current_tick s' = current_tick s \<and> played_millis s' = played_millis s
     \<and> elapsed_millis s' = elapsed_millis s \<and> game_mode s' = game_mode s
     \<and> is_auto_play s' = is_auto_play s \<and> game_tracks_dict s' = game_tracks_dict s
     \<and> total_ticks s' = total_ticks s"
  by (cases "fdiv (float_of_int 240000) (float_of_int (int (ticks_per_measure s)))";
      cases "fdiv (projr (fdiv (float_of_int 240000) (float_of_int (int (ticks_per_measure s))))) t")
     (auto simp: set_tempo_def)

lemma GameNote_process_fields:
  assumes "GameNote_process g ch s = Inr (ch', s')"
  shows "current_tick s' = current_tick s \<and> played_millis s' = played_millis s
     \<and> elapsed_millis s' = elapsed_millis s \<and> game_mode s' = game_mode s
     \<and> is_auto_play s' = is_auto_play s \<and> game_tracks_dict s' = game_tracks_dict s
     \<and> total_ticks s' = total_ticks s"
proof (cases "params (ptnote g)")
  case (PTFileGeneralNoteParams si v pn a d)
  with assms show ?thesis
    by (auto simp: GameNote_process_def split: option.splits elim!: bindE.elims)
next
  case (PTFileVolumeNoteParams v)
  with assms show ?thesis
    by (auto simp: GameNote_process_def split: option.splits elim!: bindE.elims)
next
  case (PTFileBPMChangeNoteParams t)
  with assms obtain s1 where "set_tempo s t = Inr s1" "s' = s1"
    by (auto simp: GameNote_process_def elim!: bindE.elims)
  with set_tempo_fields [of s t s1] show ?thesis by simp
next
  case (PTFileBeatNoteParams b)
  with assms show ?thesis
    by (auto simp: GameNote_process_def set_beat_def)
qed

text \<open>Two tracks with the same notes and the same judgment cursor.\<close>

lemma map_of_dict_set_eq:
  "map_of (dict_set d k v) k' =
     (if k' = k \<and> map_of d k \<noteq> None then Some v else map_of d k')"
  by (induction d) (auto simp: dict_set_def)

lemma process_notes_fields:
  "process_notes ns s = Inr s' \<Longrightarrow>
     current_tick s' = current_tick s \<and> played_millis s' = played_millis s
     \<and> elapsed_millis s' = elapsed_millis s \<and> game_mode s' = game_mode s
     \<and> is_auto_play s' = is_auto_play s \<and> total_ticks s' = total_ticks s"
proof (induction ns arbitrary: s)
  case Nil
  then show ?case by simp
next
  case (Cons x ns)
  obtain ti n where x: "x = (ti, n)" by (cases x)
  from Cons.prems x obtain t ch' s1 where
    t: "map_of (game_tracks_dict s) ti = Some t"
    and pr: "GameNote_process n (track_channel t) s = Inr (ch', s1)"
    and rest: "process_notes ns
                 (s1\<lparr>game_tracks_dict :=
                       dict_set (game_tracks_dict s1) ti (t\<lparr>track_channel := ch'\<rparr>)\<rparr>) = Inr s'"
    by (auto split: option.splits sum.splits)
  from Cons.IH [OF rest] GameNote_process_fields [OF pr]
  show ?case by simp
qed

lemma process_notes_tracks:
  "process_notes ns s = Inr s' \<Longrightarrow> map_of (game_tracks_dict s) k = Some t \<Longrightarrow>
     \<exists>t'. map_of (game_tracks_dict s') k = Some t'
        \<and> game_notes t' = game_notes t \<and> current_play_index t' = current_play_index t"
proof (induction ns arbitrary: s t)
  case Nil
  then show ?case by simp
next
  case (Cons x ns)
  obtain ti n where x: "x = (ti, n)" by (cases x)
  from Cons.prems(1) x obtain t0 ch' s1 where
    t0: "map_of (game_tracks_dict s) ti = Some t0"
    and pr: "GameNote_process n (track_channel t0) s = Inr (ch', s1)"
    and rest: "process_notes ns
                 (s1\<lparr>game_tracks_dict :=
                       dict_set (game_tracks_dict s1) ti (t0\<lparr>track_channel := ch'\<rparr>)\<rparr>) = Inr s'"
    by (auto split: option.splits sum.splits)
  let ?s2 = "s1\<lparr>game_tracks_dict :=
               dict_set (game_tracks_dict s1) ti (t0\<lparr>track_channel := ch'\<rparr>)\<rparr>"
  from GameNote_process_fields [OF pr] have d: "game_tracks_dict s1 = game_tracks_dict s" by simp
  have "\<exists>t1. map_of (game_tracks_dict ?s2) k = Some t1
          \<and> game_notes t1 = game_notes t \<and> current_play_index t1 = current_play_index t"
    using Cons.prems(2) t0 by (auto simp: d map_of_dict_set_eq)
  then obtain t1 where t1: "map_of (game_tracks_dict ?s2) k = Some t1"
    "game_notes t1 = game_notes t" "current_play_index t1 = current_play_index t" by blast
  from Cons.IH [OF rest t1(1)] t1(2,3) show ?case by simp
qed

lemma on_tick_intermediate_mr_sound_fields:
  "on_tick_intermediate_mr_sound s = Inr s1 \<Longrightarrow>
     current_tick s1 = current_tick s \<and> played_millis s1 = played_millis s
     \<and> current_millis s1 = current_millis s \<and> started_millis s1 = started_millis s
     \<and> tick_interval_millis s1 = tick_interval_millis s
     \<and> game_mode s1 = game_mode s \<and> is_auto_play s1 = is_auto_play s"
  by (auto simp: on_tick_intermediate_mr_sound_def play_sound_def
           split: option.splits sum.splits elim!: bindE.elims)

lemma on_tick_intermediate_mr_sound_tracks:
  "on_tick_intermediate_mr_sound s = Inr s1 \<Longrightarrow> map_of (game_tracks_dict s) k = Some t \<Longrightarrow>
     \<exists>t'. map_of (game_tracks_dict s1) k = Some t'
        \<and> game_notes t' = game_notes t \<and> current_play_index t' = current_play_index t"
  by (auto simp: on_tick_intermediate_mr_sound_def play_sound_def map_of_dict_set_eq
           split: option.splits sum.splits elim!: bindE.elims)

lemma drain_track_judgment:
  "drain_track tick keep t = (t', ns) \<Longrightarrow>
     game_notes t' = game_notes t \<and> current_play_index t' = current_play_index t"
proof (induction tick keep t arbitrary: t' ns rule: drain_track.induct)
  case (1 tick keep t)
  show ?case
  proof (cases "get_head_note t")
    case None
    with "1.prems" show ?thesis by (subst (asm) drain_track.simps) simp
  next
    case (Some n)
    show ?thesis
    proof (cases "int (get_position n) \<le> tick")
      case True
      obtain t1 ns1 where r: "drain_track tick keep (increment_index t) = (t1, ns1)"
        by (cases "drain_track tick keep (increment_index t)")
      with "1.prems" Some True have "t' = t1"
        by (subst (asm) drain_track.simps) simp
      with "1.IH" [OF Some True r] show ?thesis by (simp add: increment_index_def)
    next
      case False
      with "1.prems" Some show ?thesis by (subst (asm) drain_track.simps) simp
    qed
  qed
qed

lemma map_of_keyed_map:
  "map_of (map (\<lambda>(k, v). (k, f k v)) xs) k = map_option (f k) (map_of xs k)"
  by (induction xs) auto

lemma on_tick_drain_fields:
  "on_tick_drain s = (s3, ns) \<Longrightarrow>
     current_tick s3 = current_tick s \<and> played_millis s3 = played_millis s
     \<and> elapsed_millis s3 = elapsed_millis s \<and> game_mode s3 = game_mode s
     \<and> is_auto_play s3 = is_auto_play s"
  by (auto simp: on_tick_drain_def Let_def)

lemma on_tick_drain_tracks:
  assumes "on_tick_drain s = (s3, ns)" "map_of (game_tracks_dict s) k = Some t"
  shows "\<exists>t'. map_of (game_tracks_dict s3) k = Some t'
        \<and> game_notes t' = game_notes t \<and> current_play_index t' = current_play_index t"
proof -
  let ?f = "\<lambda>track_index t. fst (drain_track (current_tick s)
              (\<not> is_playable_track (game_mode s) track_index \<or> is_auto_play s) t)"
  from assms(1) have "game_tracks_dict s3 = map (\<lambda>(k, v). (k, ?f k v)) (game_tracks_dict s)"
    by (auto simp: on_tick_drain_def Let_def split_def comp_def)
  then have "map_of (game_tracks_dict s3) k = Some (?f k t)"
    using assms(2) by (simp add: map_of_keyed_map)
  moreover obtain t1 ns1 where "drain_track (current_tick s)
              (\<not> is_playable_track (game_mode s) k \<or> is_auto_play s) t = (t1, ns1)"
    by (cases "drain_track (current_tick s)
              (\<not> is_playable_track (game_mode s) k \<or> is_auto_play s) t")
  ultimately show ?thesis using drain_track_judgment [of _ _ t t1 ns1] by auto
qed

lemma on_tick_clock_fields:
  "current_tick (on_tick_clock s) = current_tick s"
  "tick_interval_millis (on_tick_clock s) = tick_interval_millis s"
  "current_millis (on_tick_clock s) = current_millis s"
  "game_tracks_dict (on_tick_clock s) = game_tracks_dict s"
  "game_mode (on_tick_clock s) = game_mode s"
  "is_auto_play (on_tick_clock s) = is_auto_play s"
  by (simp_all add: on_tick_clock_def Let_def)

lemma on_tick_advance_fields:
  assumes "on_tick_advance s = Inr s2"
  shows "elapsed_millis s2 = fsub (current_millis s) (started_millis s)"
    "game_tracks_dict s2 = game_tracks_dict s" "game_mode s2 = game_mode s"
    "is_auto_play s2 = is_auto_play s"
  using assms
  by (auto simp: on_tick_advance_def Let_def split: if_splits elim!: bindE.elims)

lemma py_int_floor:
  "py_int q = Inr k \<Longrightarrow> \<exists>x. q = Finite x \<and> (0 < k \<longleftrightarrow> 0 < \<lfloor>x\<rfloor>) \<and> (0 < k \<longrightarrow> k = \<lfloor>x\<rfloor>)"
  by (cases q) (auto split: if_splits)

lemma on_tick_advance_ticks:
  assumes "on_tick_advance s = Inr s2"
  shows "(flt (Finite 0) (tick_interval_millis s) \<longrightarrow>
           (\<exists>x. fdiv (fsub (fsub (current_millis s) (started_millis s)) (played_millis s))
                   (tick_interval_millis s) = Inr (Finite x)
              \<and> (0 < \<lfloor>x\<rfloor> \<longrightarrow>
                    current_tick s2 = current_tick s + \<lfloor>x\<rfloor>
                    \<and> played_millis s2 =
                        fadd (played_millis s)
                          (fmul (tick_interval_millis s) (float_of_int \<lfloor>x\<rfloor>)))
              \<and> (\<not> 0 < \<lfloor>x\<rfloor> \<longrightarrow>
                    current_tick s2 = current_tick s \<and> played_millis s2 = played_millis s)))
       \<and> (\<not> flt (Finite 0) (tick_interval_millis s) \<longrightarrow>
            current_tick s2 = current_tick s \<and> played_millis s2 = played_millis s)"
proof (cases "flt (Finite 0) (tick_interval_millis s)")
  case False
  with assms show ?thesis by (auto simp: on_tick_advance_def Let_def)
next
  case True
  let ?inc = "fsub (fsub (current_millis s) (started_millis s)) (played_millis s)"
  obtain q where q: "fdiv ?inc (tick_interval_millis s) = Inr q"
    using assms True
    by (cases "fdiv ?inc (tick_interval_millis s)") (auto simp: on_tick_advance_def Let_def)
  obtain k where k: "py_int q = Inr k"
    using assms True q by (cases "py_int q") (auto simp: on_tick_advance_def Let_def)
  have s2: "s2 = (if k > 0
                   then s\<lparr>elapsed_millis := fsub (current_millis s) (started_millis s),
                          current_tick := current_tick s + k,
                          played_millis :=
                            fadd (played_millis s)
                              (fmul (tick_interval_millis s) (float_of_int k))\<rparr>
                   else s\<lparr>elapsed_millis := fsub (current_millis s) (started_millis s)\<rparr>)"
    using assms True q k by (auto simp: on_tick_advance_def Let_def)
  from py_int_floor [OF k] obtain x where x: "q = Finite x" "0 < k \<longleftrightarrow> 0 < \<lfloor>x\<rfloor>"
    "0 < k \<longrightarrow> k = \<lfloor>x\<rfloor>" by blast
  show ?thesis
    using True q x s2 by auto
qed

lemma on_tick_elapsed:
  assumes "player_is_playing s" "on_tick s p = Inr (s', p')"
  shows "elapsed_millis s' =
           fsub (current_millis (on_tick_clock s)) (started_millis (on_tick_clock s))"
proof -
  from on_tick_result [OF assms] obtain s1 s2 s3 ns s4 d where
    st: "on_tick_stages s p s' p' s1 s2 s3 ns s4 d" by blast
  then have s1: "on_tick_intermediate_mr_sound (on_tick_clock s) = Inr s1"
    and s2: "on_tick_advance s1 = Inr s2"
    and s3: "on_tick_drain s2 = (s3, ns)"
    and s4: "process_notes ns s3 = Inr s4"
    and s': "s' = (if int (total_ticks s4) < current_tick s4
                   then s4\<lparr>game_tracks_dict := d, player_is_playing := False\<rparr>
                   else s4\<lparr>game_tracks_dict := d\<rparr>)"
    unfolding on_tick_stages_def by simp_all
  from s' have "elapsed_millis s' = elapsed_millis s4" by simp
  with process_notes_fields [OF s4] on_tick_drain_fields [OF s3] on_tick_advance_fields(1) [OF s2]
    on_tick_intermediate_mr_sound_fields [OF s1]
  show ?thesis by simp
qed

section \<open>The tick advance of a frame\<close>

text \<open>
  Claim C8, as stated, at two states of a playing sequence player.  With the tick
  interval 0 (the state after a seek to a tick before the first tempo note) the quotient
  \<open>incrementalMillis / currentTickIntervalMillis\<close> is a division by zero and the frame
  advances nothing.  With the interval \<open>55.55555555555556\<close> of 9 beats per minute and
  500 ms to account for, the floor of the quotient of the two numbers is 8, and the frame
  advances 9 ticks: the program divides in floating point, and the quotient rounds to
  \<open>9.0\<close>.
\<close>

theorem C8_floor_formula_counterexample:
  "player_is_playing example_unset_tempo_player
   \<and> fdiv (fsub (fsub (current_millis example_unset_tempo_player)
                    (started_millis example_unset_tempo_player))
              (played_millis example_unset_tempo_player))
         (tick_interval_millis example_unset_tempo_player) = Inl ZeroDivisionError
   \<and> on_tick_advance example_unset_tempo_player =
       Inr (example_unset_tempo_player\<lparr>elapsed_millis := Finite 50\<rparr>)
   \<and> player_is_playing example_slow_player
   \<and> tick_interval_millis example_slow_player = Finite (3909374676536889 / 70368744177664)
   \<and> fsub (fsub (current_millis example_slow_player) (started_millis example_slow_player))
        (played_millis example_slow_player) = Finite 500
   \<and> \<lfloor>(500 :: rat) / (3909374676536889 / 70368744177664)\<rfloor> = 8
   \<and> map_sum id current_tick (on_tick_advance example_slow_player) = Inr 9"
proof -
  have r: "round_double (35184372088832000 / 3909374676536889) = Finite 9"
    using round_double_eq [of "35184372088832000 / 3909374676536889" "- 49"]
    by (simp add: pow2_def round_half_even_def Let_def floor_rat_numeral)
  have fl: "\<lfloor>(35184372088832000 :: rat) / 3909374676536889\<rfloor> = 8"
    by (simp add: floor_rat_numeral)
  show ?thesis
    by (simp add: example_unset_tempo_player_def example_slow_player_def example_player_def
        on_tick_advance_def Let_def fsub_def round_double_int r fl float_of_int_def)
qed

text \<open>
  Claim C8, amended.  On a frame while playing that completes (\<open>int\<close> raises on a
  quotient that is NaN or infinite), with
  \<open>elapsed = currentMillis - startedMillis\<close> and
  \<open>incrementalMillis = elapsed - playedMillis\<close> taken after the start-of-frame clock
  adjustments, all in floating point: when the tick interval is positive, the quotient
  \<open>incrementalMillis / interval\<close> is computed as a double \<open>x\<close>, and when
  \<open>incrementalTicks = floor(x)\<close> is positive the frame adds \<open>incrementalTicks\<close> to
  \<open>currentTick\<close> and the double \<open>interval * incrementalTicks\<close> to \<open>playedMillis\<close>; in
  every other case, in particular whenever the interval is not positive, both stay as
  they were.  The interval used is the one in effect before this frame's notes are
  processed, and the new values are the old ones plus the increment.
\<close>

theorem C8_tick_advance:
  assumes playing: "player_is_playing s" and frame: "on_tick s p = Inr (s', p')"
  shows "let s0 = on_tick_clock s;
             elapsed = fsub (current_millis s0) (started_millis s0);
             incremental_millis = fsub elapsed (played_millis s0);
             interval = tick_interval_millis s0
         in elapsed_millis s' = elapsed
            \<and> (flt (Finite 0) interval \<longrightarrow>
                 (\<exists>x. fdiv incremental_millis interval = Inr (Finite x)
                    \<and> (0 < \<lfloor>x\<rfloor> \<longrightarrow>
                          current_tick s' = current_tick s + \<lfloor>x\<rfloor>
                          \<and> played_millis s' =
                              fadd (played_millis s0) (fmul interval (float_of_int \<lfloor>x\<rfloor>)))
                    \<and> (\<not> 0 < \<lfloor>x\<rfloor> \<longrightarrow>
                          current_tick s' = current_tick s
                          \<and> played_millis s' = played_millis s0)))
            \<and> (\<not> flt (Finite 0) interval \<longrightarrow>
                  current_tick s' = current_tick s \<and> played_millis s' = played_millis s0)"
proof -
  from on_tick_result [OF playing frame] obtain s1 s2 s3 ns s4 d where
    st: "on_tick_stages s p s' p' s1 s2 s3 ns s4 d" by blast
  then have s1: "on_tick_intermediate_mr_sound (on_tick_clock s) = Inr s1"
    and s2: "on_tick_advance s1 = Inr s2"
    and s3: "on_tick_drain s2 = (s3, ns)"
    and s4: "process_notes ns s3 = Inr s4"
    and s': "s' = (if int (total_ticks s4) < current_tick s4
                   then s4\<lparr>game_tracks_dict := d, player_is_playing := False\<rparr>
                   else s4\<lparr>game_tracks_dict := d\<rparr>)"
    unfolding on_tick_stages_def by simp_all
  from s' have e4: "current_tick s' = current_tick s4" "played_millis s' = played_millis s4"
    "elapsed_millis s' = elapsed_millis s4" by simp_all
  from process_notes_fields [OF s4] on_tick_drain_fields [OF s3]
  have e2: "current_tick s4 = current_tick s2" "played_millis s4 = played_millis s2"
    "elapsed_millis s4 = elapsed_millis s2" by simp_all
  from on_tick_intermediate_mr_sound_fields [OF s1] have e1:
    "current_tick s1 = current_tick s"
    "played_millis s1 = played_millis (on_tick_clock s)"
    "current_millis s1 = current_millis (on_tick_clock s)"
    "started_millis s1 = started_millis (on_tick_clock s)"
    "tick_interval_millis s1 = tick_interval_millis (on_tick_clock s)"
    by (simp_all add: on_tick_clock_fields(1))
  from on_tick_advance_fields(1) [OF s2] on_tick_advance_ticks [OF s2]
  show ?thesis
    unfolding Let_def e4 e2 e1 by simp
qed

lemma example_slow_frame:
  "\<exists>s' p'. on_tick example_slow_player example_fresh_score = Inr (s', p')"
proof -
  have r: "round_double (35184372088832000 / 3909374676536889) = Finite 9"
    using round_double_eq [of "35184372088832000 / 3909374676536889" "- 49"]
    by (simp add: pow2_def round_half_even_def Let_def floor_rat_numeral)
  have m: "round_double (35184372088832001 / 70368744177664) = Finite 500"
    using round_double_eq [of "35184372088832001 / 70368744177664" "- 44"]
    by (simp add: pow2_def round_half_even_def Let_def floor_rat_numeral)
  show ?thesis
    by (simp add: on_tick_def on_tick_clock_def on_tick_intermediate_mr_sound_def
      on_tick_advance_def on_tick_drain_def example_slow_player_def example_player_def
      example_track_def example_short_note_def example_played_millis_def
      example_fresh_score_def Let_def get_head_note_def increment_index_def
      is_playable_track_def get_track_indices_def is_general_def command_type_def
      get_position_def get_play_head_note_def should_fail_to_play_def
      is_too_late_to_start_def get_position_millis_def list_get_def
      fsub_def fmul_def round_double_int r m float_of_int_def
      sweep_fail_head_def GameNote_fail_def report_play_result_def on_play_result_def
      increment_play_index_def set_play_index_def find_note_index_def is_playable_def)
qed

theorem C8_tick_advance_witness:
  "player_is_playing example_slow_player
   \<and> (\<exists>s' p'. on_tick example_slow_player example_fresh_score = Inr (s', p')
         \<and> elapsed_millis s' = Finite 500 \<and> current_tick s' = 9
         \<and> played_millis s' = Finite 500)"
proof -
  have playing: "player_is_playing example_slow_player"
    by (simp add: example_slow_player_def example_player_def)
  obtain s' p' where frame: "on_tick example_slow_player example_fresh_score = Inr (s', p')"
    using example_slow_frame by blast
  have r: "round_double (35184372088832000 / 3909374676536889) = Finite 9"
    using round_double_eq [of "35184372088832000 / 3909374676536889" "- 49"]
    by (simp add: pow2_def round_half_even_def Let_def floor_rat_numeral)
  have m: "round_double (35184372088832001 / 70368744177664) = Finite 500"
    using round_double_eq [of "35184372088832001 / 70368744177664" "- 44"]
    by (simp add: pow2_def round_half_even_def Let_def floor_rat_numeral)
  from C8_tick_advance [OF playing frame]
  have "elapsed_millis s' = Finite 500 \<and> current_tick s' = 9 \<and> played_millis s' = Finite 500"
    by (simp add: Let_def on_tick_clock_def example_slow_player_def example_player_def
        fsub_def fmul_def round_double_int r m float_of_int_def)
  with playing frame show ?thesis by blast
qed

section \<open>The auto-fail sweep\<close>

lemma increment_play_index_advances:
  assumes "get_play_head_note t = Some n"
  shows "current_play_index t <
           current_play_index
             (increment_play_index (t\<lparr>game_notes := (game_notes t)[current_play_index t := n']\<rparr>))"
proof -
  from assms have lt: "current_play_index t < length (game_notes t)"
    by (simp add: get_play_head_note_def split: if_splits)
  then have "current_play_index t + 1 \<le> length ((game_notes t)[current_play_index t := n'])"
    by simp
  from find_note_index_bounds [OF this, of is_playable]
  show ?thesis by (simp add: increment_play_index_def set_play_index_def)
qed

lemma on_play_result_graded:
  assumes "result_type r = Some g"
  shows "\<exists>p'. on_play_result r p = Inr p' \<and> play_result_count p' = play_result_count p + 1"
proof -
  obtain w where w: "fdiv (fmul (average_accuracy p) (float_of_int (int (play_result_count p + 1) - 1)))
                       (float_of_int (int (play_result_count p + 1))) = Inr w"
    using fdiv_count [of _ "play_result_count p"] by auto
  obtain sh where sh: "fdiv (float_of_int (grade_value g))
                         (float_of_int (int (play_result_count p + 1))) = Inr sh"
    using fdiv_count [of _ "play_result_count p"] by auto
  show ?thesis
    using assms w sh by (simp add: on_play_result_def Let_def)
qed

lemma on_play_result_count:
  assumes "on_play_result r p = Inr p'"
  shows "play_result_count p' = play_result_count p + 1"
proof (cases "result_type r")
  case None
  with assms show ?thesis
    by (auto simp: on_play_result_def Let_def elim!: bindE.elims)
next
  case (Some g)
  from on_play_result_graded [OF Some, of p] assms show ?thesis by auto
qed

lemma report_play_result_count:
  "report_play_result r p = Inr p' \<Longrightarrow> play_result_count p \<le> play_result_count p'"
  by (auto simp: report_play_result_def split: option.splits if_splits
      dest!: on_play_result_count)

lemma sweep_fail_head_count:
  "play_result_count p \<le> play_result_count p'" if "sweep_fail_head e a n p = Inr (n', p')"
proof (cases a)
  case True
  then show ?thesis using that by (simp add: sweep_fail_head_def)
next
  case False
  with that obtain n1 r where f: "GameNote_fail n e = Inr (n1, r)"
    by (cases "GameNote_fail n e") (auto simp: sweep_fail_head_def)
  with that False have "report_play_result r p = Inr p'"
    by (cases "report_play_result r p") (auto simp: sweep_fail_head_def)
  then show ?thesis by (rule report_play_result_count)
qed

lemma sweep_track_unfold:
  assumes "get_play_head_note t = Some n" "should_fail_to_play n e = Inr True"
    "sweep_fail_head e a n p = Inr (n', p1)"
  shows "sweep_track e a t p =
           sweep_track e a
             (increment_play_index (t\<lparr>game_notes := (game_notes t)[current_play_index t := n']\<rparr>))
             p1"
  by (subst sweep_track.simps) (simp add: assms)

lemma sweep_track_result:
  "sweep_track e a t p = Inr (t', p') \<Longrightarrow>
     current_play_index t \<le> current_play_index t'
     \<and> (\<forall>i < current_play_index t. game_notes t' ! i = game_notes t ! i)
     \<and> play_result_count p \<le> play_result_count p'"
proof (induction e a t p arbitrary: t' p' rule: sweep_track.induct)
  case (1 e a t p)
  show ?case
  proof (cases "get_play_head_note t")
    case None
    with "1.prems" show ?thesis by (subst (asm) sweep_track.simps) simp
  next
    case (Some n)
    show ?thesis
    proof (cases "should_fail_to_play n e")
      case (Inl err)
      with "1.prems" Some show ?thesis by (subst (asm) sweep_track.simps) simp
    next
      case (Inr b)
      show ?thesis
      proof (cases b)
        case False
        with "1.prems" Some Inr show ?thesis by (subst (asm) sweep_track.simps) simp
      next
        case True
        show ?thesis
        proof (cases "sweep_fail_head e a n p")
          case (Inl err)
          with "1.prems" Some \<open>should_fail_to_play n e = Inr b\<close> True show ?thesis
            by (subst (asm) sweep_track.simps) simp
        next
          case r: (Inr np)
          obtain n' p1 where np: "np = (n', p1)" by (cases np)
          let ?t1 = "increment_play_index
                       (t\<lparr>game_notes := (game_notes t)[current_play_index t := n']\<rparr>)"
          from Inr True have sf: "should_fail_to_play n e = Inr True" by simp
          from r np have sh: "sweep_fail_head e a n p = Inr (n', p1)" by simp
          from "1.prems" sweep_track_unfold [OF Some sf sh]
          have run: "sweep_track e a ?t1 p1 = Inr (t', p')" by simp
          from "1.IH" [OF Some sf refl sh refl run]
          have ih: "current_play_index ?t1 \<le> current_play_index t'"
            "\<forall>i < current_play_index ?t1. game_notes t' ! i = game_notes ?t1 ! i"
            "play_result_count p1 \<le> play_result_count p'" by simp_all
          from increment_play_index_advances [OF Some, of n']
          have adv: "current_play_index t < current_play_index ?t1" .
          have "\<forall>i < current_play_index t. game_notes t' ! i = game_notes t ! i"
            using ih(2) adv by (simp add: increment_play_index_def set_play_index_def)
          with ih adv sweep_fail_head_count [OF sh] show ?thesis by simp
        qed
      qed
    qed
  qed
qed

lemma sweep_track_fail_step:
  assumes hd: "get_play_head_note t = Some n"
    and sf: "should_fail_to_play n e = Inr True"
    and fl: "GameNote_fail n e = Inr (n', Some r)"
    and g: "result_type r = Some g"
    and run: "sweep_track e False t p = Inr (t', p')"
  shows "current_play_index t < current_play_index t'
       \<and> game_notes t' ! current_play_index t = n'
       \<and> play_result_count p < play_result_count p'"
proof -
  let ?t1 = "increment_play_index (t\<lparr>game_notes := (game_notes t)[current_play_index t := n']\<rparr>)"
  from on_play_result_graded [OF g, of p] obtain p1 where
    p1: "on_play_result r p = Inr p1" "play_result_count p1 = play_result_count p + 1" by blast
  have sh: "sweep_fail_head e False n p = Inr (n', p1)"
    using fl p1(1) g by (simp add: sweep_fail_head_def report_play_result_def)
  from run sweep_track_unfold [OF hd sf sh] have run1: "sweep_track e False ?t1 p1 = Inr (t', p')"
    by simp
  from sweep_track_result [OF run1] have r:
    "current_play_index ?t1 \<le> current_play_index t'"
    "\<forall>i < current_play_index ?t1. game_notes t' ! i = game_notes ?t1 ! i"
    "play_result_count p1 \<le> play_result_count p'" by simp_all
  from increment_play_index_advances [OF hd, of n']
  have adv: "current_play_index t < current_play_index ?t1" .
  from hd have lt: "current_play_index t < length (game_notes t)"
    by (simp add: get_play_head_note_def split: if_splits)
  from r(2) adv have "game_notes t' ! current_play_index t = game_notes ?t1 ! current_play_index t"
    by simp
  also have "\<dots> = n'" using lt by (simp add: increment_play_index_def set_play_index_def)
  finally show ?thesis using r(1,3) adv p1(2) by simp
qed

lemma sweep_tracks_count:
  "sweep_tracks e a m d p = Inr (d', p') \<Longrightarrow> play_result_count p \<le> play_result_count p'"
proof (induction d arbitrary: p d' p')
  case Nil
  then show ?case by simp
next
  case (Cons x d)
  obtain k t where x: "x = (k, t)" by (cases x)
  show ?case
  proof (cases "is_playable_track m k")
    case True
    with Cons.prems x obtain t1 p1 rest where
      "sweep_track e a t p = Inr (t1, p1)" "sweep_tracks e a m d p1 = Inr (rest, p')"
      by (auto split: sum.splits)
    with sweep_track_result [of e a t p t1 p1] Cons.IH [of p1 rest p'] show ?thesis by simp
  next
    case False
    with Cons.prems x obtain rest where "sweep_tracks e a m d p = Inr (rest, p')"
      by (auto split: sum.splits)
    with Cons.IH [of p rest p'] show ?thesis by simp
  qed
qed

lemma sweep_tracks_track:
  "sweep_tracks e a m d p = Inr (d', p') \<Longrightarrow> map_of d k = Some t \<Longrightarrow> is_playable_track m k \<Longrightarrow>
     \<exists>p1 p2 t'. sweep_track e a t p1 = Inr (t', p2) \<and> map_of d' k = Some t'
        \<and> play_result_count p \<le> play_result_count p1
        \<and> play_result_count p2 \<le> play_result_count p'"
proof (induction d arbitrary: p d' p')
  case Nil
  then show ?case by simp
next
  case (Cons x d)
  obtain k0 t0 where x: "x = (k0, t0)" by (cases x)
  show ?case
  proof (cases "is_playable_track m k0")
    case True
    with Cons.prems(1) x obtain t1 p1 rest where
      st: "sweep_track e a t0 p = Inr (t1, p1)" and rs: "sweep_tracks e a m d p1 = Inr (rest, p')"
      and d': "d' = (k0, t1) # rest"
      by (auto split: sum.splits)
    show ?thesis
    proof (cases "k0 = k")
      case True
      with Cons.prems(2) x have "t = t0" by simp
      with st d' True sweep_tracks_count [OF rs] show ?thesis
        by (intro exI [of _ p] exI [of _ p1] exI [of _ t1]) simp
    next
      case False
      with Cons.prems(2) x have "map_of d k = Some t" by simp
      from Cons.IH [OF rs this Cons.prems(3)] obtain q1 q2 t' where
        "sweep_track e a t q1 = Inr (t', q2)" "map_of rest k = Some t'"
        "play_result_count p1 \<le> play_result_count q1"
        "play_result_count q2 \<le> play_result_count p'" by blast
      with sweep_track_result [OF st] d' False show ?thesis
        by (intro exI [of _ q1] exI [of _ q2] exI [of _ t']) simp
    qed
  next
    case np: False
    with Cons.prems(1) x obtain rest where
      rs: "sweep_tracks e a m d p = Inr (rest, p')" and d': "d' = (k0, t0) # rest"
      by (auto split: sum.splits)
    from np Cons.prems(3) have ne: "k0 \<noteq> k" by auto
    with Cons.prems(2) x have "map_of d k = Some t" by simp
    from Cons.IH [OF rs this Cons.prems(3)] d' ne show ?thesis by simp
  qed
qed

text \<open>
  The track \<open>track_index\<close> and its judgment head from the start of a frame to the sweep:
  the stages before the sweep change neither the notes nor the judgment cursor.
\<close>

lemma on_tick_sweep_track:
  assumes playing: "player_is_playing s" and frame: "on_tick s p = Inr (s', p')"
    and tr: "map_of (game_tracks_dict s) track_index = Some t"
    and interactive: "is_playable_track (game_mode s) track_index"
  shows "\<exists>t4 p1 p2 t'. game_notes t4 = game_notes t
           \<and> current_play_index t4 = current_play_index t
           \<and> sweep_track (elapsed_millis s') (is_auto_play s) t4 p1 = Inr (t', p2)
           \<and> map_of (game_tracks_dict s') track_index = Some t'
           \<and> play_result_count p \<le> play_result_count p1
           \<and> play_result_count p2 \<le> play_result_count p'"
proof -
  from on_tick_result [OF playing frame] obtain s1 s2 s3 ns s4 d where
    st: "on_tick_stages s p s' p' s1 s2 s3 ns s4 d" by blast
  then have s1: "on_tick_intermediate_mr_sound (on_tick_clock s) = Inr s1"
    and s2: "on_tick_advance s1 = Inr s2"
    and s3: "on_tick_drain s2 = (s3, ns)"
    and s4: "process_notes ns s3 = Inr s4"
    and sw: "sweep_tracks (elapsed_millis s4) (is_auto_play s4) (game_mode s4)
               (game_tracks_dict s4) p = Inr (d, p')"
    and s': "s' = (if int (total_ticks s4) < current_tick s4
                   then s4\<lparr>game_tracks_dict := d, player_is_playing := False\<rparr>
                   else s4\<lparr>game_tracks_dict := d\<rparr>)"
    unfolding on_tick_stages_def by simp_all
  from s' have e': "elapsed_millis s' = elapsed_millis s4" "game_tracks_dict s' = d" by simp_all
  from process_notes_fields [OF s4] on_tick_drain_fields [OF s3] on_tick_advance_fields [OF s2]
    on_tick_intermediate_mr_sound_fields [OF s1]
  have f: "game_mode s4 = game_mode s" "is_auto_play s4 = is_auto_play s"
    by (simp_all add: on_tick_clock_fields)
  from tr have "map_of (game_tracks_dict (on_tick_clock s)) track_index = Some t"
    by (simp add: on_tick_clock_fields)
  from on_tick_intermediate_mr_sound_tracks [OF s1 this] obtain t1 where
    t1: "map_of (game_tracks_dict s1) track_index = Some t1"
    "game_notes t1 = game_notes t" "current_play_index t1 = current_play_index t" by blast
  from t1(1) on_tick_advance_fields(2) [OF s2]
  have "map_of (game_tracks_dict s2) track_index = Some t1" by simp
  from on_tick_drain_tracks [OF s3 this] obtain t3 where
    t3: "map_of (game_tracks_dict s3) track_index = Some t3"
    "game_notes t3 = game_notes t1" "current_play_index t3 = current_play_index t1" by blast
  from process_notes_tracks [OF s4 t3(1)] obtain t4 where
    t4: "map_of (game_tracks_dict s4) track_index = Some t4"
    "game_notes t4 = game_notes t3" "current_play_index t4 = current_play_index t3" by blast
  from interactive f have pl: "is_playable_track (game_mode s4) track_index" by simp
  from sweep_tracks_track [OF sw t4(1) pl] obtain p1 p2 t' where
    "sweep_track (elapsed_millis s4) (is_auto_play s4) t4 p1 = Inr (t', p2)"
    "map_of d track_index = Some t'"
    "play_result_count p \<le> play_result_count p1"
    "play_result_count p2 \<le> play_result_count p'" by blast
  with t1 t3 t4 e' f show ?thesis
    by (intro exI [of _ t4] exI [of _ p1] exI [of _ p2] exI [of _ t']) simp
qed

text \<open>
  Claim C5.  On a frame of the playing sequence player without auto-play that completes
  without an exception, take an
  interactive track (a track of the current game mode) and the note at its judgment
  cursor, with \<open>elapsed\<close> the elapsed milliseconds of the frame and differences computed in
  floating point.  If the note is not Playing and \<open>elapsed - positionMillis\<close> exceeds
  \<open>3 * unitJudgeMillis\<close>, the frame leaves it failed with BREAK and reason TooLateToStart;
  if it is Playing and \<open>elapsed - endPositionMillis\<close> exceeds \<open>3 * unitJudgeMillis\<close>, the
  frame leaves it failed with MAX1 and reason TooLateToFinish (not BREAK).  In both cases
  the judgment cursor of the track has moved past the note and the score aggregator has
  counted a result.
\<close>

theorem C5_auto_fail_sweep:
  assumes playing: "player_is_playing s" and manual: "\<not> is_auto_play s"
    and frame: "on_tick s p = Inr (s', p')"
    and tr: "map_of (game_tracks_dict s) track_index = Some t"
    and interactive: "is_playable_track (game_mode s) track_index"
    and hd: "get_play_head_note t = Some n"
  shows "(\<not> note_is_playing n \<and> get_position_millis n = Inr pm
            \<and> flt (float_of_int (3 * unit_judge_millis n)) (fsub (elapsed_millis s') pm) \<longrightarrow>
          (\<exists>t'. map_of (game_tracks_dict s') track_index = Some t'
             \<and> current_play_index t < current_play_index t'
             \<and> game_notes t' ! current_play_index t =
                  n\<lparr>note_play_result :=
                      Some \<lparr>result_type = Some BREAK,
                            timing_diff = Some (fsub (elapsed_millis s') pm),
                            reason = Some TOO_LATE_TO_START\<rparr>\<rparr>
             \<and> play_result_count p < play_result_count p'))
       \<and> (note_is_playing n \<and> get_end_position_millis n = Inr em
            \<and> flt (float_of_int (3 * unit_judge_millis n)) (fsub (elapsed_millis s') em) \<longrightarrow>
          (\<exists>t'. map_of (game_tracks_dict s') track_index = Some t'
             \<and> current_play_index t < current_play_index t'
             \<and> game_notes t' ! current_play_index t =
                  n\<lparr>note_play_result :=
                      Some \<lparr>result_type = Some MAX1,
                            timing_diff = Some (fsub (elapsed_millis s') em),
                            reason = Some TOO_LATE_TO_FINISH\<rparr>\<rparr>
             \<and> play_result_count p < play_result_count p'))"
proof -
  let ?e = "elapsed_millis s'"
  from on_tick_sweep_track [OF playing frame tr interactive] manual obtain t4 p1 p2 t' where
    t4: "game_notes t4 = game_notes t" "current_play_index t4 = current_play_index t"
    and run: "sweep_track ?e False t4 p1 = Inr (t', p2)"
    and m: "map_of (game_tracks_dict s') track_index = Some t'"
    and c: "play_result_count p \<le> play_result_count p1"
           "play_result_count p2 \<le> play_result_count p'"
    by auto
  from hd t4 have hd4: "get_play_head_note t4 = Some n"
    by (auto simp: get_play_head_note_def split: if_splits)
  show ?thesis
  proof (intro conjI impI)
    assume a: "\<not> note_is_playing n \<and> get_position_millis n = Inr pm
               \<and> flt (float_of_int (3 * unit_judge_millis n)) (fsub ?e pm)"
    let ?r = "\<lparr>result_type = Some BREAK, timing_diff = Some (fsub ?e pm),
               reason = Some TOO_LATE_TO_START\<rparr>"
    have sf: "should_fail_to_play n ?e = Inr True"
      using a by (simp add: should_fail_to_play_def is_too_late_to_start_def)
    have fl: "GameNote_fail n ?e = Inr (n\<lparr>note_play_result := Some ?r\<rparr>, Some ?r)"
      using a by (simp add: GameNote_fail_def is_too_late_to_start_def Let_def)
    from sweep_track_fail_step [OF hd4 sf fl _ run] t4 c m
    show "\<exists>t'. map_of (game_tracks_dict s') track_index = Some t'
             \<and> current_play_index t < current_play_index t'
             \<and> game_notes t' ! current_play_index t = n\<lparr>note_play_result := Some ?r\<rparr>
             \<and> play_result_count p < play_result_count p'"
      by (intro exI [of _ t']) simp
  next
    assume a: "note_is_playing n \<and> get_end_position_millis n = Inr em
               \<and> flt (float_of_int (3 * unit_judge_millis n)) (fsub ?e em)"
    let ?r = "\<lparr>result_type = Some MAX1, timing_diff = Some (fsub ?e em),
               reason = Some TOO_LATE_TO_FINISH\<rparr>"
    have sf: "should_fail_to_play n ?e = Inr True"
      using a by (simp add: should_fail_to_play_def is_too_late_to_start_def
          is_too_late_to_finish_def)
    have fl: "GameNote_fail n ?e = Inr (n\<lparr>note_play_result := Some ?r\<rparr>, Some ?r)"
      using a by (simp add: GameNote_fail_def is_too_late_to_start_def
          is_too_late_to_finish_def Let_def)
    from sweep_track_fail_step [OF hd4 sf fl _ run] t4 c m
    show "\<exists>t'. map_of (game_tracks_dict s') track_index = Some t'
             \<and> current_play_index t < current_play_index t'
             \<and> game_notes t' ! current_play_index t = n\<lparr>note_play_result := Some ?r\<rparr>
             \<and> play_result_count p < play_result_count p'"
      by (intro exI [of _ t']) simp
  qed
qed

lemma example_late_frame:
  "\<exists>s' p'. on_tick example_late_player example_fresh_score = Inr (s', p')"
  by (simp add: on_tick_def on_tick_clock_def on_tick_intermediate_mr_sound_def
      on_tick_advance_def on_tick_drain_def example_late_player_def example_player_def
      example_track_def example_short_note_def example_played_millis_def
      example_fresh_score_def Let_def get_head_note_def increment_index_def
      is_playable_track_def get_track_indices_def is_general_def command_type_def
      get_position_def get_play_head_note_def should_fail_to_play_def
      is_too_late_to_start_def get_position_millis_def list_get_def
      fsub_def fmul_def round_double_int float_of_int_def
      sweep_fail_head_def GameNote_fail_def report_play_result_def on_play_result_def
      increment_play_index_def set_play_index_def find_note_index_def is_playable_def)

lemma example_held_frame:
  "\<exists>s' p'. on_tick example_held_player example_fresh_score = Inr (s', p')"
  by (simp add: on_tick_def on_tick_clock_def on_tick_intermediate_mr_sound_def
      on_tick_advance_def on_tick_drain_def example_held_player_def example_player_def
      example_held_track_def example_long_note_def example_played_millis_def
      example_fresh_score_def Let_def get_head_note_def increment_index_def
      is_playable_track_def get_track_indices_def is_general_def command_type_def
      get_position_def get_play_head_note_def should_fail_to_play_def
      is_too_late_to_start_def is_too_late_to_finish_def get_position_millis_def
      get_end_position_millis_def get_end_position_def get_duration_def list_get_def
      fsub_def fmul_def round_double_int float_of_int_def
      sweep_fail_head_def GameNote_fail_def report_play_result_def on_play_result_def
      increment_play_index_def set_play_index_def find_note_index_def is_playable_def)

theorem C5_auto_fail_sweep_witness:
  "player_is_playing example_late_player \<and> \<not> is_auto_play example_late_player
   \<and> map_of (game_tracks_dict example_late_player) 3 = Some example_track
   \<and> is_playable_track (game_mode example_late_player) 3
   \<and> get_play_head_note example_track = Some example_short_note
   \<and> \<not> note_is_playing example_short_note
   \<and> get_position_millis example_short_note = Inr (Finite 0)
   \<and> (\<exists>s' p' t'. on_tick example_late_player example_fresh_score = Inr (s', p')
         \<and> elapsed_millis s' = Finite 200
         \<and> map_of (game_tracks_dict s') 3 = Some t'
         \<and> 0 < current_play_index t'
         \<and> game_notes t' ! 0 =
              example_short_note\<lparr>note_play_result :=
                Some \<lparr>result_type = Some BREAK, timing_diff = Some (Finite 200),
                      reason = Some TOO_LATE_TO_START\<rparr>\<rparr>
         \<and> 0 < play_result_count p')
   \<and> player_is_playing example_held_player \<and> \<not> is_auto_play example_held_player
   \<and> map_of (game_tracks_dict example_held_player) 3 = Some example_held_track
   \<and> get_play_head_note example_held_track = Some example_long_note
   \<and> note_is_playing example_long_note
   \<and> get_end_position_millis example_long_note = Inr (Finite 40)
   \<and> (\<exists>s' p' t'. on_tick example_held_player example_fresh_score = Inr (s', p')
         \<and> elapsed_millis s' = Finite 200
         \<and> map_of (game_tracks_dict s') 3 = Some t'
         \<and> 0 < current_play_index t'
         \<and> game_notes t' ! 0 =
              example_long_note\<lparr>note_play_result :=
                Some \<lparr>result_type = Some MAX1, timing_diff = Some (Finite 160),
                      reason = Some TOO_LATE_TO_FINISH\<rparr>\<rparr>
         \<and> 0 < play_result_count p')"
proof -
  have pl: "player_is_playing example_late_player" "\<not> is_auto_play example_late_player"
    "player_is_playing example_held_player" "\<not> is_auto_play example_held_player"
    by (simp_all add: example_late_player_def example_held_player_def example_player_def)
  have tr: "map_of (game_tracks_dict example_late_player) 3 = Some example_track"
    "map_of (game_tracks_dict example_held_player) 3 = Some example_held_track"
    by (simp_all add: example_late_player_def example_held_player_def example_player_def)
  have it: "is_playable_track (game_mode example_late_player) 3"
    "is_playable_track (game_mode example_held_player) 3"
    by (simp_all add: example_late_player_def example_held_player_def example_player_def
        is_playable_track_def get_track_indices_def)
  have hd: "get_play_head_note example_track = Some example_short_note"
    "get_play_head_note example_held_track = Some example_long_note"
    by (simp_all add: get_play_head_note_def example_track_def example_held_track_def)
  have a: "\<not> note_is_playing example_short_note"
    "get_position_millis example_short_note = Inr (Finite 0)"
    "unit_judge_millis example_short_note = 42"
    by (simp_all add: get_position_millis_def get_position_def list_get_def
        example_short_note_def example_played_millis_def)
  have b: "note_is_playing example_long_note"
    "get_end_position_millis example_long_note = Inr (Finite 40)"
    "unit_judge_millis example_long_note = 42"
    by (simp_all add: get_end_position_millis_def get_end_position_def get_duration_def
        get_position_def list_get_def example_long_note_def example_played_millis_def)
  have d: "fsub (Finite 1200) (Finite 1000) = Finite 200"
    "fsub (Finite 200) (Finite 0) = Finite 200"
    "fsub (Finite 200) (Finite 40) = Finite 160"
    by (simp_all add: fsub_def round_double_int)
  have z: "play_result_count example_fresh_score = 0"
    "current_play_index example_track = 0" "current_play_index example_held_track = 0"
    by (simp_all add: example_fresh_score_def example_track_def example_held_track_def)
  obtain s1 p1 where f1: "on_tick example_late_player example_fresh_score = Inr (s1, p1)"
    using example_late_frame by blast
  obtain s2 p2 where f2: "on_tick example_held_player example_fresh_score = Inr (s2, p2)"
    using example_held_frame by blast
  have e1: "elapsed_millis s1 = Finite 200"
    using on_tick_elapsed [OF pl(1) f1]
    by (simp add: on_tick_clock_def Let_def example_late_player_def example_player_def d)
  have e2: "elapsed_millis s2 = Finite 200"
    using on_tick_elapsed [OF pl(3) f2]
    by (simp add: on_tick_clock_def Let_def example_held_player_def example_player_def d)
  from C5_auto_fail_sweep [OF pl(1,2) f1 tr(1) it(1) hd(1), where pm = "Finite 0" and em = "Finite 0"]
  have r1: "\<exists>t'. map_of (game_tracks_dict s1) 3 = Some t'
         \<and> 0 < current_play_index t'
         \<and> game_notes t' ! 0 =
              example_short_note\<lparr>note_play_result :=
                Some \<lparr>result_type = Some BREAK, timing_diff = Some (Finite 200),
                      reason = Some TOO_LATE_TO_START\<rparr>\<rparr>
         \<and> 0 < play_result_count p1"
    using a by (simp add: e1 d z float_of_int_def)
  from C5_auto_fail_sweep [OF pl(3,4) f2 tr(2) it(2) hd(2), where pm = "Finite 0" and em = "Finite 40"]
  have r2: "\<exists>t'. map_of (game_tracks_dict s2) 3 = Some t'
         \<and> 0 < current_play_index t'
         \<and> game_notes t' ! 0 =
              example_long_note\<lparr>note_play_result :=
                Some \<lparr>result_type = Some MAX1, timing_diff = Some (Finite 160),
                      reason = Some TOO_LATE_TO_FINISH\<rparr>\<rparr>
         \<and> 0 < play_result_count p2"
    using b by (simp add: e2 d z float_of_int_def)
  from r1 f1 e1 have w1: "\<exists>s' p' t'. on_tick example_late_player example_fresh_score = Inr (s', p')
         \<and> elapsed_millis s' = Finite 200
         \<and> map_of (game_tracks_dict s') 3 = Some t'
         \<and> 0 < current_play_index t'
         \<and> game_notes t' ! 0 =
              example_short_note\<lparr>note_play_result :=
                Some \<lparr>result_type = Some BREAK, timing_diff = Some (Finite 200),
                      reason = Some TOO_LATE_TO_START\<rparr>\<rparr>
         \<and> 0 < play_result_count p'" by blast
  from r2 f2 e2 have w2: "\<exists>s' p' t'. on_tick example_held_player example_fresh_score = Inr (s', p')
         \<and> elapsed_millis s' = Finite 200
         \<and> map_of (game_tracks_dict s') 3 = Some t'
         \<and> 0 < current_play_index t'
         \<and> game_notes t' ! 0 =
              example_long_note\<lparr>note_play_result :=
                Some \<lparr>result_type = Some MAX1, timing_diff = Some (Finite 160),
                      reason = Some TOO_LATE_TO_FINISH\<rparr>\<rparr>
         \<and> 0 < play_result_count p'" by blast
  from pl tr it(1) hd a(1,2) b(1,2) w1 w2 show ?thesis by (intro conjI)
qed

section \<open>The decryption gateway\<close>

lemma take_2_drop:
  "i + 2 \<le> length xs \<Longrightarrow> take 2 (drop i xs) = [xs ! i, xs ! (i + 1)]"
  by (simp add: numeral_2_eq_2 take_Suc_conv_app_nth)

lemma is_encrypted_value:
  assumes "26 \<le> length buf"
  shows "is_encrypted buf = Inr (unat (buf ! 24) + 256 * unat (buf ! 25) \<noteq> 1)"
proof -
  from assms have "take 2 (drop 24 buf) = [buf ! 24, buf ! (24 + 1)]"
    by (intro take_2_drop) simp
  with assms show ?thesis
    by (simp add: is_encrypted_def unpack_from_def)
qed

text \<open>
  Claim C4.  For a buffer that holds the two bytes at offset 0x18, \<open>parse\<close> reads them as
  a little-endian 16-bit value.  If the value is not 1, the whole buffer, and nothing
  else, is handed to the gateway, and structural parsing runs on what the gateway
  returns (it does not run at all when the gateway fails).  If the value is 1, the buffer
  itself is parsed and the gateway is not called.
\<close>

theorem C4_decryption_gateway:
  assumes "26 \<le> length buf"
  shows "(unat (buf ! 24) + 256 * unat (buf ! 25) \<noteq> 1 \<longrightarrow>
            parse gateway buf = ([buf], bindE (gateway buf) parse_structure))
       \<and> (unat (buf ! 24) + 256 * unat (buf ! 25) = 1 \<longrightarrow>
            parse gateway buf = ([], parse_structure buf))"
  using is_encrypted_value [OF assms] by (simp add: parse_def)

theorem C4_decryption_gateway_witness:
  "26 \<le> length example_chart_bytes
   \<and> parse example_gateway example_chart_bytes = ([], parse_structure example_chart_bytes)
   \<and> 26 \<le> length example_encrypted_bytes
   \<and> parse example_gateway example_encrypted_bytes =
       ([example_encrypted_bytes], parse_structure example_chart_bytes)"
proof -
  have a: "26 \<le> length example_chart_bytes"
    and b: "26 \<le> length example_encrypted_bytes"
    by (simp_all add: example_chart_bytes_def example_header_bytes_def example_sound_bytes_def
      example_track_bytes_def example_note_bytes_def example_encrypted_bytes_def EZTR_def)
  have va: "unat (example_chart_bytes ! 24) + 256 * unat (example_chart_bytes ! 25) = 1"
    by (simp add: example_chart_bytes_def example_header_bytes_def example_sound_bytes_def
      example_track_bytes_def example_note_bytes_def example_encrypted_bytes_def EZTR_def nth_append)
  have vb: "unat (example_encrypted_bytes ! 24) + 256 * unat (example_encrypted_bytes ! 25) \<noteq> 1"
    by (simp add: example_chart_bytes_def example_header_bytes_def example_sound_bytes_def
      example_track_bytes_def example_note_bytes_def example_encrypted_bytes_def EZTR_def nth_append)
  from C4_decryption_gateway [OF a, of example_gateway]
       C4_decryption_gateway [OF b, of example_gateway] a b va vb
  show ?thesis by (simp add: example_gateway_def)
qed

section \<open>Failures of the decoder\<close>

lemma bindE_Inl_iff:
  "bindE m f = Inl e \<longleftrightarrow> m = Inl e \<or> (\<exists>x. m = Inr x \<and> f x = Inl e)"
  by (cases m) auto

lemma bindE_Inr_iff:
  "bindE m f = Inr y \<longleftrightarrow> (\<exists>x. m = Inr x \<and> f x = Inr y)"
  by (cases m) auto

lemma unpack_Inl: "unpack n u = Inl e \<Longrightarrow> e = StructError"
  by (auto simp: unpack_def unpack_from_def split: if_splits)

lemma unpack_Inr:
  "unpack n u = Inr (bs, u') \<longleftrightarrow>
     offset u + n \<le> length (buffer u) \<and> bs = take n (drop (offset u) (buffer u))
     \<and> u' = u\<lparr>offset := offset u + n\<rparr>"
  by (auto simp: unpack_def unpack_from_def)

lemma utf8_Inl: "utf8 bs = Inl e \<Longrightarrow> e = UnicodeDecodeError"
proof (induction bs rule: utf8.induct)
  case 1
  then show ?case by simp
next
  case (2 a bs)
  consider (one) "a < 128"
    | (two) "\<not> a < 128" "194 \<le> a \<and> a \<le> 223"
    | (three) "\<not> a < 128" "\<not> (194 \<le> a \<and> a \<le> 223)" "224 \<le> a \<and> a \<le> 239"
    | (four) "\<not> a < 128" "\<not> (194 \<le> a \<and> a \<le> 223)" "\<not> (224 \<le> a \<and> a \<le> 239)"
        "240 \<le> a \<and> a \<le> 244"
    | (none) "\<not> a < 128" "\<not> (194 \<le> a \<and> a \<le> 223)" "\<not> (224 \<le> a \<and> a \<le> 239)"
        "\<not> (240 \<le> a \<and> a \<le> 244)"
    by blast
  then show ?case
  proof cases
    case one
    from one 2(1,5) show ?thesis by (auto simp: bindE_Inl_iff)
  next
    case two
    from two 2(5) have
      "(case bs of [] \<Rightarrow> Inl UnicodeDecodeError
        | b # r \<Rightarrow> if cont b
            then bindE (utf8 r) (\<lambda>cs. Inr (((a - 192) * 64 + (b - 128)) # cs))
            else Inl UnicodeDecodeError) = Inl e"
      by simp
    with 2(2) two show ?thesis
      by (cases bs) (auto simp: bindE_Inl_iff split: if_splits)
  next
    case three
    from three 2(5) have
      "(case bs of
          b # c # r \<Rightarrow>
             if cont b \<and> cont c \<and> (a = 224 \<longrightarrow> 160 \<le> b) \<and> (a = 237 \<longrightarrow> b \<le> 159)
             then bindE (utf8 r) (\<lambda>cs.
                    Inr (((a - 224) * 4096 + (b - 128) * 64 + (c - 128)) # cs))
             else Inl UnicodeDecodeError
         | _ \<Rightarrow> Inl UnicodeDecodeError) = Inl e"
      by simp
    with 2(3) three show ?thesis
      by (auto simp: bindE_Inl_iff split: list.splits if_splits)
  next
    case four
    from four 2(5) have
      "(case bs of
          b # c # d # r \<Rightarrow>
             if cont b \<and> cont c \<and> cont d \<and> (a = 240 \<longrightarrow> 144 \<le> b) \<and> (a = 244 \<longrightarrow> b \<le> 143)
             then bindE (utf8 r) (\<lambda>cs.
                    Inr (((a - 240) * 262144 + (b - 128) * 4096 + (c - 128) * 64 + (d - 128)) # cs))
             else Inl UnicodeDecodeError
         | _ \<Rightarrow> Inl UnicodeDecodeError) = Inl e"
      by simp
    with 2(4) four show ?thesis
      by (auto simp: bindE_Inl_iff split: list.splits if_splits)
  next
    case none
    from none 2(5) show ?thesis
      by (auto split: if_splits)
  qed
qed

lemma decode_Inl: "decode bs = Inl e \<Longrightarrow> e = UnicodeDecodeError"
  by (simp add: decode_def utf8_Inl)

lemma parse_entries_Inl:
  assumes "\<And>u e. f u = Inl e \<Longrightarrow> e \<in> E"
  shows "parse_entries f n u = Inl e \<Longrightarrow> e \<in> E"
  by (induction n arbitrary: u) (auto split: sum.splits dest: assms)

lemma parse_entries_fail_at:
  "parse_entries f k u = Inr (xs, u') \<Longrightarrow> f u' = Inl e \<Longrightarrow> k < n \<Longrightarrow>
     parse_entries f n u = Inl e"
proof (induction k arbitrary: n u xs)
  case 0
  then obtain m where "n = Suc m" by (cases n) auto
  with 0 show ?case by simp
next
  case (Suc k)
  from Suc.prems(3) obtain m where n: "n = Suc m" and km: "k < m" by (cases n) auto
  from Suc.prems(1) obtain x u1 xs' where
    "f u = Inr (x, u1)" "parse_entries f k u1 = Inr (xs', u')"
    by (auto split: sum.splits)
  with Suc.IH [OF _ Suc.prems(2) km] n show ?case by simp
qed

lemma parse_header_Inl: "parse_header u = Inl e \<Longrightarrow> e \<in> {AssertionError, StructError}"
  by (auto simp: parse_header_def bindE_Inl_iff split: if_splits dest: unpack_Inl)

lemma parse_sound_Inl: "parse_sound u = Inl e \<Longrightarrow> e \<in> {StructError, UnicodeDecodeError}"
  by (auto simp: parse_sound_def bindE_Inl_iff dest: unpack_Inl decode_Inl)

lemma parse_note_Inl: "parse_note u = Inl e \<Longrightarrow> e \<in> {StructError, TypeError}"
  by (auto simp: parse_note_def bindE_Inl_iff Let_def split: if_splits dest: unpack_Inl)

lemma parse_notes_Inl:
  "parse_entries parse_note n u = Inl e \<Longrightarrow> e \<in> {StructError, TypeError}"
  by (rule parse_entries_Inl [where f = parse_note]) (rule parse_note_Inl)

lemma parse_track_Inl:
  assumes "parse_track u = Inl e"
  shows "e \<in> {AssertionError, TypeError, StructError, UnicodeDecodeError}"
proof (cases "unpack 80 u")
  case (Inl e')
  with assms unpack_Inl [OF Inl] show ?thesis by (simp add: parse_track_def)
next
  case (Inr r)
  obtain bs u' where r: "r = (bs, u')" by (cases r)
  show ?thesis
  proof (cases "slice 0 4 bs = EZTR")
    case False
    with assms Inr r show ?thesis by (simp add: parse_track_def)
  next
    case True
    show ?thesis
    proof (cases "decode (partition_nul (slice 6 70 bs))")
      case (Inl e')
      with assms Inr r True decode_Inl [OF Inl] show ?thesis by (simp add: parse_track_def)
    next
      case name: (Inr name)
      from assms Inr r True name
      have "parse_entries parse_note (le_nat (slice 74 78 bs) div 16) u' = Inl e"
        by (auto simp: parse_track_def Let_def bindE_Inl_iff)
      from parse_notes_Inl [OF this] show ?thesis by auto
    qed
  qed
qed

lemma parse_entries_length:
  "parse_entries f n u = Inr (xs, u') \<Longrightarrow> length xs = n"
  by (induction n arbitrary: u xs) (auto split: sum.splits)

lemma parse_structure_Inl:
  assumes "parse_structure pbuf = Inl e"
  shows "e \<in> {AssertionError, TypeError, StructError, UnicodeDecodeError}"
proof (cases "parse_header \<lparr>buffer = pbuf, offset = 0\<rparr>")
  case (Inl e')
  with assms parse_header_Inl [OF Inl] show ?thesis by (auto simp: parse_structure_def)
next
  case (Inr r)
  obtain h u1 where r: "r = (h, u1)" by (cases r)
  show ?thesis
  proof (cases "parse_entries parse_sound (number_of_sounds h) u1")
    case (Inl e')
    from parse_entries_Inl [where f = parse_sound, OF parse_sound_Inl Inl]
    have "e' \<in> {StructError, UnicodeDecodeError}" .
    with assms Inr r Inl show ?thesis by (auto simp: parse_structure_def)
  next
    case ss: (Inr r2)
    obtain sound_entries u2 where r2: "r2 = (sound_entries, u2)" by (cases r2)
    from assms Inr r ss r2
    have "parse_entries parse_track (number_of_tracks h) u2 = Inl e"
      by (auto simp: parse_structure_def bindE_Inl_iff)
    from parse_entries_Inl [where f = parse_track, OF parse_track_Inl this]
    show ?thesis .
  qed
qed

lemma parse_structure_complete:
  assumes "parse_structure pbuf = Inr c"
  shows "length (sounds c) = number_of_sounds (header c)
       \<and> length (tracks c) = number_of_tracks (header c)"
proof -
  from assms obtain h u1 ss u2 ts u3 where
    "parse_entries parse_sound (number_of_sounds h) u1 = Inr (ss, u2)"
    "parse_entries parse_track (number_of_tracks h) u2 = Inr (ts, u3)"
    "c = \<lparr>header = h, sounds = ss, tracks = ts\<rparr>"
    by (auto simp: parse_structure_def bindE_Inr_iff)
  then show ?thesis by (auto dest: parse_entries_length)
qed

lemma parse_header_bad_magic:
  assumes "24 \<le> length pbuf" "take 4 pbuf \<noteq> PTFF"
  shows "parse_header \<lparr>buffer = pbuf, offset = 0\<rparr> = Inl AssertionError"
proof -
  have u: "unpack 24 \<lparr>buffer = pbuf, offset = 0\<rparr> =
             Inr (take 24 pbuf, \<lparr>buffer = pbuf, offset = 24\<rparr>)"
    using assms(1) by (simp add: unpack_def unpack_from_def)
  have "slice 0 4 (take 24 pbuf) = take 4 pbuf"
    by (simp add: slice_def)
  with assms(2) show ?thesis
    by (simp add: parse_header_def u)
qed

lemma parse_track_bad_magic:
  assumes "offset u + 80 \<le> length (buffer u)"
      and "take 4 (drop (offset u) (buffer u)) \<noteq> EZTR"
  shows "parse_track u = Inl AssertionError"
proof -
  have u: "unpack 80 u = Inr (take 80 (drop (offset u) (buffer u)), u\<lparr>offset := offset u + 80\<rparr>)"
    using assms(1) by (simp add: unpack_def unpack_from_def)
  have "slice 0 4 (take 80 (drop (offset u) (buffer u))) = take 4 (drop (offset u) (buffer u))"
    by (simp add: slice_def)
  with assms(2) show ?thesis
    by (simp add: parse_track_def u)
qed

lemma slice_one:
  "i < length xs \<Longrightarrow> slice i (Suc i) xs = [xs ! i]"
  by (simp add: slice_def take_Suc_conv_app_nth)

lemma parse_note_bad_command:
  assumes "offset u + 16 \<le> length (buffer u)"
      and "unat (buffer u ! (offset u + 4)) \<notin> {1, 2, 3, 4}"
  shows "parse_note u = Inl TypeError"
proof -
  let ?bs = "take 16 (drop (offset u) (buffer u))"
  have u: "unpack 16 u = Inr (?bs, u\<lparr>offset := offset u + 16\<rparr>)"
    using assms(1) by (simp add: unpack_def unpack_from_def)
  have len: "length ?bs = 16" using assms(1) by simp
  have "slice 4 (Suc 4) ?bs = [?bs ! 4]"
    using assms(1) by (intro slice_one) simp
  moreover have "?bs ! 4 = buffer u ! (offset u + 4)"
    using assms(1) by simp
  ultimately have ct: "le_nat (slice 4 5 ?bs) = unat (buffer u ! (offset u + 4))"
    by simp
  show ?thesis
    unfolding parse_note_def u bindE.simps prod.case Let_def ct
    using assms(2) by simp
qed

text \<open>
  Claim C3, as stated, at a truncated file: a header that announces one sound, followed by
  the first two bytes of the sound entry only.  \<open>parse\<close> fails with \<open>struct.error\<close>, which
  is neither a failed magic assertion nor an unsupported command type.
\<close>

theorem C3_truncated_buffer_counterexample:
  "parse example_gateway example_truncated_bytes = ([], Inl StructError)
   \<and> \<not> is_FormatError StructError"
  by (simp add: parse_def is_encrypted_def unpack_from_def parse_structure_def parse_header_def
      unpack_def slice_def le_float_def parse_sound_def is_FormatError_def example_chart_bytes_def example_header_bytes_def example_sound_bytes_def
      example_track_bytes_def example_note_bytes_def example_encrypted_bytes_def
      example_truncated_bytes_def example_bad_header_bytes_def example_bad_track_bytes_def
      example_bad_command_bytes_def EZTR_def PTFF_def)

text \<open>
  Claim C3, amended.  Let \<open>pbuf\<close> be the plaintext that structural parsing sees (the buffer
  itself, or what the gateway returned for it).  A header of 24 bytes whose first 4 bytes
  are not "PTFF" makes \<open>parse\<close> fail with the assertion error; so does an 80-byte track
  record, reached after the header, the sound table and \<open>k\<close> tracks have parsed, whose
  first 4 bytes are not "EZTR"; a 16-byte note record of that track, reached after \<open>j\<close>
  notes have parsed, whose command type is not one of 1, 2, 3, 4 makes \<open>parse\<close> fail with the
  TypeError.  Every failure of structural parsing is one of: assertion error, TypeError,
  \<open>struct.error\<close> (buffer too short), UnicodeDecodeError (a name that is not UTF-8).  A
  chart that is returned is complete: it has as many sounds and tracks as its header
  says.  The result is a chart or an exception, never both.
\<close>

theorem C3_parse_failures:
  assumes pt: "is_encrypted buf = Inr False \<and> pbuf = buf
               \<or> is_encrypted buf = Inr True \<and> gateway buf = Inr pbuf"
  shows "(24 \<le> length pbuf \<and> take 4 pbuf \<noteq> PTFF \<longrightarrow>
            snd (parse gateway buf) = Inl AssertionError \<and> is_FormatError AssertionError)
       \<and> (parse_header \<lparr>buffer = pbuf, offset = 0\<rparr> = Inr (h, u1)
            \<and> parse_entries parse_sound (number_of_sounds h) u1 = Inr (ss, u2)
            \<and> k < number_of_tracks h
            \<and> parse_entries parse_track k u2 = Inr (ts, u3) \<longrightarrow>
              (offset u3 + 80 \<le> length (buffer u3)
               \<and> take 4 (drop (offset u3) (buffer u3)) \<noteq> EZTR \<longrightarrow>
                 snd (parse gateway buf) = Inl AssertionError)
            \<and> (unpack 80 u3 = Inr (bs, u4) \<and> slice 0 4 bs = EZTR
               \<and> decode (partition_nul (slice 6 70 bs)) = Inr name
               \<and> j < le_nat (slice 74 78 bs) div 16
               \<and> parse_entries parse_note j u4 = Inr (ns, u5)
               \<and> offset u5 + 16 \<le> length (buffer u5)
               \<and> unat (buffer u5 ! (offset u5 + 4)) \<notin> {1, 2, 3, 4} \<longrightarrow>
                 snd (parse gateway buf) = Inl TypeError \<and> is_FormatError TypeError))
       \<and> (\<forall>e. snd (parse gateway buf) = Inl e \<longrightarrow>
              e \<in> {AssertionError, TypeError, StructError, UnicodeDecodeError})
       \<and> (\<forall>c. snd (parse gateway buf) = Inr c \<longrightarrow>
              length (sounds c) = number_of_sounds (header c)
              \<and> length (tracks c) = number_of_tracks (header c))"
proof -
  from pt have p: "snd (parse gateway buf) = parse_structure pbuf"
    by (auto simp: parse_def)
  have a: "parse_structure pbuf = Inl AssertionError"
    if "24 \<le> length pbuf" "take 4 pbuf \<noteq> PTFF"
    using parse_header_bad_magic [OF that] by (simp add: parse_structure_def)
  have tr: "parse_structure pbuf = Inl e"
    if "parse_header \<lparr>buffer = pbuf, offset = 0\<rparr> = Inr (h, u1)"
       "parse_entries parse_sound (number_of_sounds h) u1 = Inr (ss, u2)"
       "k < number_of_tracks h"
       "parse_entries parse_track k u2 = Inr (ts, u3)"
       "parse_track u3 = Inl e" for e
    using parse_entries_fail_at [OF that(4,5,3)] that(1,2)
    by (simp add: parse_structure_def)
  have b: "parse_track u3 = Inl AssertionError"
    if "offset u3 + 80 \<le> length (buffer u3)"
       "take 4 (drop (offset u3) (buffer u3)) \<noteq> EZTR"
    using parse_track_bad_magic [OF that] .
  have c: "parse_track u3 = Inl TypeError"
    if "unpack 80 u3 = Inr (bs, u4)" "slice 0 4 bs = EZTR"
       "decode (partition_nul (slice 6 70 bs)) = Inr name"
       "j < le_nat (slice 74 78 bs) div 16"
       "parse_entries parse_note j u4 = Inr (ns, u5)"
       "offset u5 + 16 \<le> length (buffer u5)"
       "unat (buffer u5 ! (offset u5 + 4)) \<notin> {1, 2, 3, 4}"
  proof -
    from parse_entries_fail_at [OF that(5) parse_note_bad_command [OF that(6,7)] that(4)]
    show ?thesis using that(1,2,3) by (simp add: parse_track_def Let_def)
  qed
  show ?thesis
    unfolding p
    using a tr b c parse_structure_Inl [of pbuf] parse_structure_complete [of pbuf]
    by (simp add: is_FormatError_def)
qed

lemma example_header_parses:
  "parse_header \<lparr>buffer = example_header_bytes @ rest, offset = 0\<rparr> =
     Inr (\<lparr>version_major = 1, version_minor = 0, header_ticks_per_measure = 480,
           master_bpm = 1123024896, number_of_tracks = 1, header_total_ticks = 13,
           time_in_seconds = 0, number_of_sounds = 1\<rparr>,
          \<lparr>buffer = example_header_bytes @ rest, offset = 24\<rparr>)"
  by (simp add: parse_header_def unpack_def unpack_from_def slice_def le_float_def
      example_header_bytes_def PTFF_def)

lemma example_sound_parses:
  "parse_entries parse_sound 1 \<lparr>buffer = example_header_bytes @ example_sound_bytes @ rest,
                                 offset = 24\<rparr> =
     Inr ([\<lparr>index = 1, command = 0, filename = [97, 46, 119, 97, 118]\<rparr>],
          \<lparr>buffer = example_header_bytes @ example_sound_bytes @ rest, offset = 92\<rparr>)"
  by (simp add: parse_sound_def unpack_def unpack_from_def slice_def decode_def partition_nul_def
      example_header_bytes_def example_sound_bytes_def)

theorem C3_parse_failures_witness:
  "snd (parse example_gateway example_bad_header_bytes) = Inl AssertionError
   \<and> snd (parse example_gateway example_bad_track_bytes) = Inl AssertionError
   \<and> snd (parse example_gateway example_bad_command_bytes) = Inl TypeError
   \<and> is_encrypted example_encrypted_bytes = Inr True
   \<and> example_gateway example_encrypted_bytes = Inr example_chart_bytes"
proof -
  let ?h = "\<lparr>version_major = 1, version_minor = 0, header_ticks_per_measure = 480,
            master_bpm = 1123024896 :: 32 word, number_of_tracks = 1, header_total_ticks = 13,
            time_in_seconds = 0 :: 32 word, number_of_sounds = 1\<rparr>"
  let ?s = "[\<lparr>index = 1, command = 0, filename = [97, 46, 119, 97, 118]\<rparr>]"
  have e1: "is_encrypted example_bad_header_bytes = Inr False"
    and e2: "is_encrypted example_bad_track_bytes = Inr False"
    and e3: "is_encrypted example_bad_command_bytes = Inr False"
    and e4: "is_encrypted example_encrypted_bytes = Inr True"
    by (simp_all add: is_encrypted_def unpack_from_def example_chart_bytes_def example_header_bytes_def example_sound_bytes_def
      example_track_bytes_def example_note_bytes_def example_encrypted_bytes_def
      example_truncated_bytes_def example_bad_header_bytes_def example_bad_track_bytes_def
      example_bad_command_bytes_def EZTR_def PTFF_def)
  have h1: "24 \<le> length example_bad_header_bytes \<and> take 4 example_bad_header_bytes \<noteq> PTFF"
    by (simp add: example_chart_bytes_def example_header_bytes_def example_sound_bytes_def
      example_track_bytes_def example_note_bytes_def example_encrypted_bytes_def
      example_truncated_bytes_def example_bad_header_bytes_def example_bad_track_bytes_def
      example_bad_command_bytes_def EZTR_def PTFF_def)
  have g4: "example_gateway example_encrypted_bytes = Inr example_chart_bytes"
    by (simp add: example_gateway_def)
  let ?u2 = "\<lparr>buffer = example_bad_track_bytes, offset = 92\<rparr>"
  have h2: "parse_header \<lparr>buffer = example_bad_track_bytes, offset = 0\<rparr> =
              Inr (?h, \<lparr>buffer = example_bad_track_bytes, offset = 24\<rparr>)"
    unfolding example_bad_track_bytes_def by (rule example_header_parses)
  have s2: "parse_entries parse_sound (number_of_sounds ?h)
              \<lparr>buffer = example_bad_track_bytes, offset = 24\<rparr> = Inr (?s, ?u2)"
    unfolding example_bad_track_bytes_def using example_sound_parses by simp
  have t2: "parse_entries parse_track 0 ?u2 = Inr ([], ?u2)" "0 < number_of_tracks ?h"
    by simp_all
  have m2: "offset ?u2 + 80 \<le> length (buffer ?u2)
            \<and> take 4 (drop (offset ?u2) (buffer ?u2)) \<noteq> EZTR"
    by (simp add: example_chart_bytes_def example_header_bytes_def example_sound_bytes_def
      example_track_bytes_def example_note_bytes_def example_encrypted_bytes_def
      example_truncated_bytes_def example_bad_header_bytes_def example_bad_track_bytes_def
      example_bad_command_bytes_def EZTR_def PTFF_def)
  let ?u3 = "\<lparr>buffer = example_bad_command_bytes, offset = 92\<rparr>"
  let ?u4 = "\<lparr>buffer = example_bad_command_bytes, offset = 172\<rparr>"
  let ?bs = "take 80 (drop 92 example_bad_command_bytes)"
  have h3: "parse_header \<lparr>buffer = example_bad_command_bytes, offset = 0\<rparr> =
              Inr (?h, \<lparr>buffer = example_bad_command_bytes, offset = 24\<rparr>)"
    unfolding example_bad_command_bytes_def by (rule example_header_parses)
  have s3: "parse_entries parse_sound (number_of_sounds ?h)
              \<lparr>buffer = example_bad_command_bytes, offset = 24\<rparr> = Inr (?s, ?u3)"
    unfolding example_bad_command_bytes_def using example_sound_parses by simp
  have t3: "parse_entries parse_track 0 ?u3 = Inr ([], ?u3)"
    by simp
  have r3: "unpack 80 ?u3 = Inr (?bs, ?u4)"
    by (simp add: unpack_def unpack_from_def example_chart_bytes_def example_header_bytes_def example_sound_bytes_def
      example_track_bytes_def example_note_bytes_def example_encrypted_bytes_def
      example_truncated_bytes_def example_bad_header_bytes_def example_bad_track_bytes_def
      example_bad_command_bytes_def EZTR_def PTFF_def)
  have m3: "slice 0 4 ?bs = EZTR" "decode (partition_nul (slice 6 70 ?bs)) = Inr [75, 49]"
    "0 < le_nat (slice 74 78 ?bs) div 16"
    by (simp_all add: slice_def decode_def partition_nul_def example_chart_bytes_def example_header_bytes_def example_sound_bytes_def
      example_track_bytes_def example_note_bytes_def example_encrypted_bytes_def
      example_truncated_bytes_def example_bad_header_bytes_def example_bad_track_bytes_def
      example_bad_command_bytes_def EZTR_def PTFF_def)
  have n3: "parse_entries parse_note 0 ?u4 = Inr ([], ?u4)"
    "offset ?u4 + 16 \<le> length (buffer ?u4)"
    "unat (buffer ?u4 ! (offset ?u4 + 4)) \<notin> {1, 2, 3, 4}"
    by (simp_all add: example_chart_bytes_def example_header_bytes_def example_sound_bytes_def
      example_track_bytes_def example_note_bytes_def example_encrypted_bytes_def
      example_truncated_bytes_def example_bad_header_bytes_def example_bad_track_bytes_def
      example_bad_command_bytes_def EZTR_def PTFF_def nth_append)
  from C3_parse_failures [where gateway = example_gateway and buf = example_bad_header_bytes
         and pbuf = example_bad_header_bytes] e1 h1
  have w1: "snd (parse example_gateway example_bad_header_bytes) = Inl AssertionError"
    by simp
  from C3_parse_failures [where gateway = example_gateway and buf = example_bad_track_bytes
         and pbuf = example_bad_track_bytes and h = ?h and ss = ?s and ts = "[]" and k = 0
         and ?u1.0 = "\<lparr>buffer = example_bad_track_bytes, offset = 24\<rparr>"
         and ?u2.0 = ?u2 and ?u3.0 = ?u2] e2 h2 s2 t2 m2
  have w2: "snd (parse example_gateway example_bad_track_bytes) = Inl AssertionError"
    by simp
  from C3_parse_failures [where gateway = example_gateway and buf = example_bad_command_bytes
         and pbuf = example_bad_command_bytes and h = ?h and ss = ?s and ts = "[]" and k = 0
         and ?u1.0 = "\<lparr>buffer = example_bad_command_bytes, offset = 24\<rparr>"
         and ?u2.0 = ?u3 and ?u3.0 = ?u3 and bs = ?bs and ?u4.0 = ?u4 and name = "[75, 49]"
         and j = 0 and ns = "[]" and ?u5.0 = ?u4] e3 h3 s3 t2(2) t3 r3 m3 n3
  have w3: "snd (parse example_gateway example_bad_command_bytes) = Inl TypeError"
    by simp
  from w1 w2 w3 e4 g4 show ?thesis by simp
qed

section \<open>The result of loading a chart\<close>

lemma open_ptfile_result:
  assumes "open_ptfile sound_table ptfile s p = Inr (s', p')"
  shows "\<exists>trs0 trs2 v. open_ptfile_facts sound_table ptfile s s' trs0 trs2 v"
  using assms
  unfolding open_ptfile_def open_ptfile_facts_def Let_def
  by (auto simp: bindE_Inr_iff set_tempo_def set_beat_def)

lemma example_ptfile_loads:
  "\<not> isl (open_ptfile example_sound_table example_ptfile example_player example_score)"
  by code_simp

section \<open>Channel allocation\<close>

lemma effective_tracks_distinct: "distinct (map fst (effective_tracks trs))"
proof -
  have "distinct (map fst (zip [0 ..< length trs] trs))"
    by simp
  then show ?thesis
    unfolding effective_tracks_def by (rule distinct_map_filter)
qed

lemma map_of_keyed_map_distinct:
  assumes "distinct (map fst xs)" "(k, x) \<in> set xs"
  shows "map_of (map (\<lambda>(k, x). (k, f k x)) xs) k = Some (f k x)"
proof -
  have eq: "map fst (map (\<lambda>(k, x). (k, f k x)) xs) = map fst xs"
    by (induction xs) auto
  have "distinct (map fst (map (\<lambda>(k, x). (k, f k x)) xs))"
    unfolding eq by (rule assms(1))
  moreover from assms(2) have "(k, f k x) \<in> set (map (\<lambda>(k, x). (k, f k x)) xs)"
    by force
  ultimately show ?thesis by simp
qed

lemma partition_list_by_size_keys:
  "map fst (partition_list_by_size lst e sizes) = map fst sizes"
  by (induction lst e sizes rule: partition_list_by_size.induct) simp_all

lemma partition_list_by_size_lengths:
  "e + sum_list (map snd sizes) \<le> length lst \<Longrightarrow>
     map (\<lambda>x. length (snd x)) (partition_list_by_size lst e sizes) = map snd sizes"
  by (induction lst e sizes rule: partition_list_by_size.induct) (simp_all add: slice_def)

lemma partition_list_by_size_concat:
  "e + sum_list (map snd sizes) \<le> length lst \<Longrightarrow>
     concat (map snd (partition_list_by_size lst e sizes))
       = slice e (e + sum_list (map snd sizes)) lst"
proof (induction lst e sizes rule: partition_list_by_size.induct)
  case (1 lst e)
  then show ?case by (simp add: slice_def)
next
  case (2 lst e key n sizes)
  from 2 have ih: "concat (map snd (partition_list_by_size lst (e + n) sizes))
       = slice (e + n) (e + n + sum_list (map snd sizes)) lst"
    by (simp add: add.assoc)
  have "take n (drop e lst) @ take (sum_list (map snd sizes)) (drop (e + n) lst)
          = take (n + sum_list (map snd sizes)) (drop e lst)"
    by (simp add: take_add add.commute)
  with ih show ?case by (simp add: slice_def)
qed

lemma set_track_channels_result:
  assumes "set_track_channels chans trs = Inr d" "(ti, t) \<in> set d"
  shows "track_channel t = map_of chans ti \<and> map_of chans ti \<noteq> None"
proof -
  from assms(1) have all: "list_all (\<lambda>(track_index, t). map_of chans track_index \<noteq> None) trs"
    and d: "d = map (\<lambda>(track_index, t).
                  (track_index, t\<lparr>track_channel := map_of chans track_index\<rparr>)) trs"
    by (auto simp: set_track_channels_def split: if_splits)
  from assms(2) d obtain t0 where "(ti, t0) \<in> set trs"
    "t = t0\<lparr>track_channel := map_of chans ti\<rparr>"
    by auto
  with all show ?thesis by (auto simp: list_all_iff)
qed

text \<open>
  Claim C7.  After \<open>open_ptfile\<close> has completed there is one channel count per effective
  track, in track order: 0 for a track without a general note, otherwise 2 if the track
  was flagged as having an overlap or is of type FG1, otherwise 1.  The pool holds the sum
  of the counts, numbered from 0.  The channel lists of the tracks have these counts as
  lengths and, put end to end in track order, are the pool: contiguous, disjoint ranges.
  Every track holds the channel object of its index.
\<close>

theorem C7_channel_allocation:
  assumes "open_ptfile sound_table ptfile s p = Inr (s', p')"
  shows "map fst (number_of_channels_per_track s') = map fst (effective_tracks (tracks ptfile))
       \<and> (\<forall>(ti, tr) \<in> set (effective_tracks (tracks ptfile)).
             map_of (number_of_channels_per_track s') ti =
               Some (if \<not> list_ex (\<lambda>n. command_type n = GENERAL) (track_notes tr) then 0
                     else if map_of (track_has_any_overlap s') ti = Some True
                             \<or> get_track_type ti = FG1 then 2
                     else 1))
       \<and> total_number_of_channels s' = sum_list (map snd (number_of_channels_per_track s'))
       \<and> pygame_channels s' = [0 ..< total_number_of_channels s']
       \<and> map fst (channel_per_track s') = map fst (number_of_channels_per_track s')
       \<and> map (\<lambda>x. length (channels (snd x))) (channel_per_track s')
           = map snd (number_of_channels_per_track s')
       \<and> concat (map (\<lambda>x. channels (snd x)) (channel_per_track s')) = pygame_channels s'
       \<and> (\<forall>(ti, t) \<in> set (game_tracks_dict s').
             track_channel t = map_of (channel_per_track s') ti
             \<and> map_of (channel_per_track s') ti \<noteq> None)"
proof -
  let ?eff = "effective_tracks (tracks ptfile)"
  let ?hg = "map (\<lambda>(track_index, tr).
                (track_index, list_ex (\<lambda>n. command_type n = GENERAL) (track_notes tr))) ?eff"
  from open_ptfile_result [OF assms] obtain trs0 trs2 v where
    "open_ptfile_facts sound_table ptfile s s' trs0 trs2 v"
    by blast
  then have
    ov: "track_has_any_overlap s' = sweep_has_any_overlap v"
    and counts: "number_of_channels_per_track s' =
               map (\<lambda>(track_index, tr).
                      (track_index,
                       channel_count (map_of ?hg track_index = Some True)
                         (map_of (sweep_has_any_overlap v) track_index)
                         (get_track_type track_index))) ?eff"
    and total: "total_number_of_channels s' = sum_list (map snd (number_of_channels_per_track s'))"
    and pool: "pygame_channels s' = [0 ..< total_number_of_channels s']"
    and chans: "channel_per_track s' =
               map (\<lambda>(track_index, cs). (track_index, GameTrackChannel_init cs))
                 (partition_list_by_size (pygame_channels s') 0 (number_of_channels_per_track s'))"
    and stc: "set_track_channels (channel_per_track s')
               (map (\<lambda>(track_index, t).
                      (track_index,
                       GameTrack_set_played_millis_per_tick (sweep_played_millis_per_tick v)
                         (t\<lparr>current_index := 0\<rparr>))) trs2) = Inr (game_tracks_dict s')"
    unfolding open_ptfile_facts_def by blast+
  have keys: "map fst (number_of_channels_per_track s') = map fst ?eff"
    by (simp add: counts case_prod_unfold comp_def)
  have count: "map_of (number_of_channels_per_track s') ti =
               Some (if \<not> list_ex (\<lambda>n. command_type n = GENERAL) (track_notes tr) then 0
                     else if map_of (track_has_any_overlap s') ti = Some True
                             \<or> get_track_type ti = FG1 then 2
                     else 1)"
    if "(ti, tr) \<in> set ?eff" for ti tr
  proof -
    have hg: "map_of ?hg ti = Some (list_ex (\<lambda>n. command_type n = GENERAL) (track_notes tr))"
      by (rule map_of_keyed_map_distinct [OF effective_tracks_distinct that])
    show ?thesis
      unfolding counts map_of_keyed_map_distinct [OF effective_tracks_distinct that] hg ov
      by (simp add: channel_count_def)
  qed
  have fits: "0 + sum_list (map snd (number_of_channels_per_track s'))
                \<le> length (pygame_channels s')"
    by (simp add: pool total)
  have ckeys: "map fst (channel_per_track s') = map fst (number_of_channels_per_track s')"
    by (simp add: chans case_prod_unfold comp_def partition_list_by_size_keys)
  have clen: "map (\<lambda>x. length (channels (snd x))) (channel_per_track s')
           = map snd (number_of_channels_per_track s')"
    using partition_list_by_size_lengths [OF fits]
    by (simp add: chans case_prod_unfold comp_def GameTrackChannel_init_def)
  have "concat (map (\<lambda>x. channels (snd x)) (channel_per_track s'))
          = concat (map snd (partition_list_by_size (pygame_channels s') 0
                               (number_of_channels_per_track s')))"
    by (simp add: chans case_prod_unfold comp_def GameTrackChannel_init_def)
  also have "\<dots> = slice 0 (0 + sum_list (map snd (number_of_channels_per_track s')))
                     (pygame_channels s')"
    by (rule partition_list_by_size_concat [OF fits])
  also have "\<dots> = pygame_channels s'"
    using pool total by (simp add: slice_def)
  finally have cconcat:
    "concat (map (\<lambda>x. channels (snd x)) (channel_per_track s')) = pygame_channels s'" .
  from keys count total pool ckeys clen cconcat set_track_channels_result [OF stc]
  show ?thesis by auto
qed

lemma example_ptfile_overlap:
  "overlap_flags_of (open_ptfile example_sound_table example_ptfile example_player example_score)
     = Inr [(12, True)]"
  by code_simp

theorem C7_channel_allocation_witness:
  "\<exists>s' p'. open_ptfile example_sound_table example_ptfile example_player example_score
              = Inr (s', p')
      \<and> map fst (number_of_channels_per_track s') = [0, 2, 12, 13]
      \<and> map_of (number_of_channels_per_track s') 0 = Some 0
      \<and> map_of (number_of_channels_per_track s') 2 = Some 2
      \<and> map_of (number_of_channels_per_track s') 12 = Some 2
      \<and> map_of (number_of_channels_per_track s') 13 = Some 1
      \<and> total_number_of_channels s' = sum_list (map snd (number_of_channels_per_track s'))
      \<and> concat (map (\<lambda>x. channels (snd x)) (channel_per_track s'))
          = [0 ..< total_number_of_channels s']"
proof -
  obtain s' p' where o: "open_ptfile example_sound_table example_ptfile example_player
                           example_score = Inr (s', p')"
    using example_ptfile_loads
    by (cases "open_ptfile example_sound_table example_ptfile example_player example_score")
       auto
  from example_ptfile_overlap o have ov: "track_has_any_overlap s' = [(12, True)]"
    by (simp add: overlap_flags_of_def)
  let ?t0 = "\<lparr>track_name = [], ticks = 4,
           track_notes = [\<lparr>position = 0, params = PTFileBPMChangeNoteParams (Finite 125)\<rparr>]\<rparr>"
  let ?t2 = "\<lparr>track_name = [], ticks = 4,
           track_notes = [example_general_note 1 2 :: pyfloat PTFileNote]\<rparr>"
  let ?t12 = "\<lparr>track_name = [], ticks = 4,
           track_notes = [example_general_note 0 1 :: pyfloat PTFileNote, example_general_note 2 1]\<rparr>"
  let ?t13 = "\<lparr>track_name = [], ticks = 4,
           track_notes = [example_general_note 0 2 :: pyfloat PTFileNote, example_general_note 2 2]\<rparr>"
  have eff: "effective_tracks (tracks example_ptfile) = [(0, ?t0), (2, ?t2), (12, ?t12), (13, ?t13)]"
    by code_simp
  have g: "\<not> list_ex (\<lambda>n. command_type n = GENERAL) (track_notes ?t0)"
    "list_ex (\<lambda>n. command_type n = GENERAL) (track_notes ?t2)"
    "list_ex (\<lambda>n. command_type n = GENERAL) (track_notes ?t12)"
    "list_ex (\<lambda>n. command_type n = GENERAL) (track_notes ?t13)"
    by (simp_all add: command_type_def example_general_note_def)
  have ty: "get_track_type 2 = FG1" "get_track_type 13 \<noteq> FG1"
    by (simp_all add: get_track_type_def)
  note c7 = C7_channel_allocation [OF o]
  from c7 have keys: "map fst (number_of_channels_per_track s') = [0, 2, 12, 13]"
    by (simp add: eff)
  from c7 have counts: "\<forall>(ti, tr) \<in> set (effective_tracks (tracks example_ptfile)).
             map_of (number_of_channels_per_track s') ti =
               Some (if \<not> list_ex (\<lambda>n. command_type n = GENERAL) (track_notes tr) then 0
                     else if map_of (track_has_any_overlap s') ti = Some True
                             \<or> get_track_type ti = FG1 then 2
                     else 1)"
    by blast
  from counts g ty have vals:
    "map_of (number_of_channels_per_track s') 0 = Some 0"
    "map_of (number_of_channels_per_track s') 2 = Some 2"
    "map_of (number_of_channels_per_track s') 12 = Some 2"
    "map_of (number_of_channels_per_track s') 13 = Some 1"
    unfolding eff ov by simp_all
  from c7 have rest:
    "total_number_of_channels s' = sum_list (map snd (number_of_channels_per_track s'))"
    "concat (map (\<lambda>x. channels (snd x)) (channel_per_track s'))
          = [0 ..< total_number_of_channels s']"
    by simp_all
  show ?thesis
    by (rule exI [of _ s'], rule exI [of _ p']) (simp add: o keys vals rest [symmetric])
qed
section \<open>The timeline of a loaded chart\<close>

lemma round_double_not_NaN: "round_double x \<noteq> NaN"
  by (auto simp: round_double_def round_positive_def Let_def)

lemma nonneg_double_round:
  assumes "0 \<le> x"
  shows "nonneg_double (round_double x)"
proof (cases "round_double x")
  case (Finite y)
  with round_double_nonneg [OF assms] round_double_fixed [OF assms Finite]
  show ?thesis by (simp add: nonneg_double_def)
next
  case NInf
  with round_double_nonneg [OF assms] show ?thesis by simp
qed (simp_all add: nonneg_double_def round_double_not_NaN)

lemma fadd_nonneg_double:
  assumes "nonneg_double a" "fle (Finite 0) b"
  shows "fle a (fadd a b) \<and> nonneg_double (fadd a b)"
proof (cases a)
  case (Finite x)
  with assms(1) have x: "0 \<le> x" "round_double x = Finite x" by (simp_all add: nonneg_double_def)
  show ?thesis
  proof (cases b)
    case b: (Finite y)
    with assms(2) have y: "0 \<le> y" by simp
    from x(1) y have "fle (round_double x) (round_double (x + y))"
      by (intro round_double_mono) simp_all
    with x(2) have "fle (Finite x) (round_double (x + y))" by simp
    moreover from x(1) y have "nonneg_double (round_double (x + y))"
      by (intro nonneg_double_round) simp
    ultimately show ?thesis by (simp add: Finite b)
  qed (use assms(2) Finite in \<open>simp_all add: nonneg_double_def\<close>)
next
  case PInf
  with assms(2) show ?thesis by (cases b) (simp_all add: nonneg_double_def)
qed (use assms(1) in \<open>simp_all add: nonneg_double_def\<close>)

lemma interval_base:
  assumes "fdiv (float_of_int 240000) (float_of_int (int tpm)) = Inr q"
  shows "\<exists>x. q = Finite x \<and> 0 \<le> x"
proof -
  from assms have tpm: "tpm \<noteq> 0" and q: "q = round_double (240000 / of_nat tpm)"
    by (auto simp: float_of_int_def split: if_splits)
  let ?x = "240000 / of_nat tpm :: rat"
  from tpm have pos: "0 < ?x" by simp
  from tpm have "(1 :: rat) \<le> of_nat tpm" by (cases tpm) simp_all
  then have "?x \<le> 240000" by (simp add: divide_le_eq)
  also have "(240000 :: rat) < pow2 18" by (simp add: pow2_def)
  also have "pow2 18 \<le> pow2 1023" by (intro pow2_mono) simp
  also note pow2_1023_less
  finally have "round_double ?x = Finite (of_int (round_half_even (?x / pow2 (ulp_exponent ?x)))
                  * pow2 (ulp_exponent ?x))"
    using pos by (simp add: round_double_def round_positive_def Let_def)
  with round_double_nonneg [of ?x] pos q show ?thesis by auto
qed

lemma interval_of_nonneg:
  assumes "interval_of tpm x = Inr i" "flt (Finite 0) x"
  shows "fle (Finite 0) i"
proof -
  from assms(1) obtain q where q: "fdiv (float_of_int 240000) (float_of_int (int tpm)) = Inr q"
    and i: "fdiv q x = Inr i"
    by (auto simp: interval_of_def bindE_Inr_iff)
  from interval_base [OF q] obtain y where y: "q = Finite y" "0 \<le> y" by blast
  show ?thesis
  proof (cases x)
    case (Finite b)
    with assms(2) have "0 < b" by simp
    with i y Finite have "i = round_double (y / b)" by simp
    with round_double_nonneg [of "y / b"] y(2) \<open>0 < b\<close> show ?thesis by simp
  qed (use assms(2) i y in auto)
qed

lemma interval_of_not_NaN:
  assumes "interval_of tpm x = Inr i" "x \<noteq> NaN"
  shows "i \<noteq> NaN"
proof -
  from assms(1) obtain q where q: "fdiv (float_of_int 240000) (float_of_int (int tpm)) = Inr q"
    and i: "fdiv q x = Inr i"
    by (auto simp: interval_of_def bindE_Inr_iff)
  from interval_base [OF q] obtain y where y: "q = Finite y" "0 \<le> y" by blast
  show ?thesis
    using i y assms(2) by (cases x) (auto simp: round_double_not_NaN split: if_splits)
qed

lemma timeline_overlap_fields:
  "timeline_overlap ti v = Inr v' \<Longrightarrow>
     sweep_tempo v' = sweep_tempo v
     \<and> sweep_tick_interval_millis v' = sweep_tick_interval_millis v
     \<and> sweep_played_millis v' = sweep_played_millis v
     \<and> sweep_tempos_per_tick v' = sweep_tempos_per_tick v
     \<and> sweep_played_millis_per_tick v' = sweep_played_millis_per_tick v
     \<and> sweep_tick_interval_millis_per_tick v' = sweep_tick_interval_millis_per_tick v"
  by (auto simp: timeline_overlap_def bindE_Inr_iff split: if_splits option.splits)

lemma timeline_note_fields:
  assumes "timeline_note tpm ti n v = Inr v'"
  shows "sweep_played_millis v' = sweep_played_millis v
     \<and> sweep_tempos_per_tick v' = sweep_tempos_per_tick v
     \<and> sweep_played_millis_per_tick v' = sweep_played_millis_per_tick v
     \<and> sweep_tick_interval_millis_per_tick v' = sweep_tick_interval_millis_per_tick v
     \<and> (case tempo_of (ptnote n) of
          None \<Rightarrow> sweep_tempo v' = sweep_tempo v
                   \<and> sweep_tick_interval_millis v' = sweep_tick_interval_millis v
        | Some x \<Rightarrow> sweep_tempo v' = x
                   \<and> interval_of tpm x = Inr (sweep_tick_interval_millis v'))"
proof -
  from assms obtain v2 where
    v2: "(if is_general n
          then bindE (timeline_overlap ti v) (\<lambda>v1.
                 Inr (v1\<lparr>last_general_note_per_track :=
                           dict_put (last_general_note_per_track v1) ti n\<rparr>))
          else Inr v) = Inr v2"
    and r: "(case params (ptnote n) of
               PTFileBPMChangeNoteParams t \<Rightarrow>
                 bindE (fdiv (float_of_int 240000) (float_of_int (int tpm))) (\<lambda>q.
                 bindE (fdiv q t) (\<lambda>i.
                   Inr (v2\<lparr>sweep_tempo := t, sweep_tick_interval_millis := i\<rparr>)))
             | _ \<Rightarrow> Inr v2) = Inr v'"
    by (auto simp: timeline_note_def bindE_Inr_iff)
  from v2 have f2: "sweep_tempo v2 = sweep_tempo v
     \<and> sweep_tick_interval_millis v2 = sweep_tick_interval_millis v
     \<and> sweep_played_millis v2 = sweep_played_millis v
     \<and> sweep_tempos_per_tick v2 = sweep_tempos_per_tick v
     \<and> sweep_played_millis_per_tick v2 = sweep_played_millis_per_tick v
     \<and> sweep_tick_interval_millis_per_tick v2 = sweep_tick_interval_millis_per_tick v"
    by (auto simp: bindE_Inr_iff split: if_splits dest: timeline_overlap_fields)
  show ?thesis
  proof (cases "params (ptnote n)")
    case (PTFileBPMChangeNoteParams t)
    with r obtain q i where
      q: "fdiv (float_of_int 240000) (float_of_int (int tpm)) = Inr q" "fdiv q t = Inr i"
      and v': "v' = v2\<lparr>sweep_tempo := t, sweep_tick_interval_millis := i\<rparr>"
      by (auto simp: bindE_Inr_iff)
    from q have "interval_of tpm t = Inr i" by (simp add: interval_of_def)
    with v' f2 PTFileBPMChangeNoteParams show ?thesis by (simp add: tempo_of_def)
  qed (use r f2 in \<open>auto simp: tempo_of_def\<close>)
qed

lemma map_filter_append:
  "List.map_filter f (xs @ ys) = List.map_filter f xs @ List.map_filter f ys"
  by (simp add: List.map_filter_def)

lemma seen_tempos_increment:
  assumes "get_head_note t = Some n"
  shows "seen_tempos (increment_index t) =
           seen_tempos t \<union> (case tempo_of (ptnote n) of None \<Rightarrow> {} | Some x \<Rightarrow> {x})"
proof -
  from assms have lt: "current_index t < length (game_notes t)"
    and n: "n = game_notes t ! current_index t"
    by (auto simp: get_head_note_def split: if_splits)
  from lt have "take (Suc (current_index t)) (game_notes t)
                  = take (current_index t) (game_notes t) @ [n]"
    by (simp add: take_Suc_conv_app_nth n)
  then show ?thesis
    by (cases "tempo_of (ptnote n)")
       (simp_all add: seen_tempos_def increment_index_def map_filter_append List.map_filter_def)
qed

lemma tempo_recorded_step:
  assumes "tempo_recorded tpm (A \<union> S) tv iv"
    and "case tempo_of pn of
           None \<Rightarrow> tv' = tv \<and> iv' = iv
         | Some x \<Rightarrow> tv' = x \<and> interval_of tpm x = Inr iv'"
  shows "tempo_recorded tpm (A \<union> (S \<union> (case tempo_of pn of None \<Rightarrow> {} | Some x \<Rightarrow> {x}))) tv' iv'"
  using assms by (cases "tempo_of pn") (auto simp: tempo_recorded_def)

lemma processed_notes_map:
  "processed_notes t (map ptnote ns) = map ptnote (takeWhile (\<lambda>n. get_position n \<le> t) ns)"
  by (simp add: processed_notes_def takeWhile_map comp_def get_position_def)

lemma length_processed_notes:
  "length (processed_notes t (map ptnote ns)) = length (takeWhile (\<lambda>n. get_position n \<le> t) ns)"
  by (simp add: processed_notes_map)

lemma positive_tempos_head:
  assumes "positive_tempos (map ptnote (game_notes t))" "get_head_note t = Some n"
  shows "positive_tempos [ptnote n]"
proof -
  from assms(2) have "n \<in> set (game_notes t)"
    by (auto simp: get_head_note_def split: if_splits)
  with assms(1) show ?thesis
    by (auto simp: positive_tempos_def list_all_iff)
qed

lemma positive_note_interval:
  assumes "positive_tempos [pn]" "fle (Finite 0) iv"
    and "case tempo_of pn of
           None \<Rightarrow> tv' = tv \<and> iv' = iv
         | Some x \<Rightarrow> tv' = x \<and> interval_of tpm x = Inr iv'"
  shows "fle (Finite 0) iv'"
proof (cases "params pn")
  case (PTFileBPMChangeNoteParams x)
  with assms(1) have "flt (Finite 0) x" by (simp add: positive_tempos_def)
  moreover from assms(3) PTFileBPMChangeNoteParams have "interval_of tpm x = Inr iv'"
    by (simp add: tempo_of_def)
  ultimately show ?thesis by (rule interval_of_nonneg [rotated])
qed (use assms in \<open>simp_all add: tempo_of_def\<close>)

lemma timeline_track_fields:
  "timeline_track tpm tick ti t v = Inr (t', v') \<Longrightarrow>
   current_index t \<le> length (takeWhile (\<lambda>n. get_position n \<le> tick) (game_notes t)) \<Longrightarrow>
   tempo_recorded tpm (A \<union> seen_tempos t) (sweep_tempo v) (sweep_tick_interval_millis v) \<Longrightarrow>
     game_notes t' = game_notes t
     \<and> current_index t' = length (takeWhile (\<lambda>n. get_position n \<le> tick) (game_notes t))
     \<and> tempo_recorded tpm (A \<union> seen_tempos t') (sweep_tempo v') (sweep_tick_interval_millis v')
     \<and> sweep_played_millis v' = sweep_played_millis v
     \<and> sweep_tempos_per_tick v' = sweep_tempos_per_tick v
     \<and> sweep_played_millis_per_tick v' = sweep_played_millis_per_tick v
     \<and> sweep_tick_interval_millis_per_tick v' = sweep_tick_interval_millis_per_tick v
     \<and> (positive_tempos (map ptnote (game_notes t)) \<and> fle (Finite 0) (sweep_tick_interval_millis v)
          \<longrightarrow> fle (Finite 0) (sweep_tick_interval_millis v'))"
proof (induction tpm tick ti t v rule: timeline_track.induct)
  case (1 tpm tick ti t v)
  let ?P = "\<lambda>n. get_position n \<le> tick"
  let ?k = "length (takeWhile ?P (game_notes t))"
  have kle: "?k \<le> length (game_notes t)" by (rule length_takeWhile_le)
  show ?case
  proof (cases "get_head_note t")
    case None
    then have "length (game_notes t) \<le> current_index t"
      by (simp add: get_head_note_def split: if_splits)
    with "1.prems"(2) kle have "current_index t = ?k" by simp
    with None "1.prems" show ?thesis by (subst (asm) timeline_track.simps) simp
  next
    case (Some n)
    then have lt: "current_index t < length (game_notes t)"
      and n: "n = game_notes t ! current_index t"
      by (auto simp: get_head_note_def split: if_splits)
    show ?thesis
    proof (cases "get_position n \<le> tick")
      case False
      have "?k \<le> current_index t"
      proof (rule ccontr)
        assume "\<not> ?k \<le> current_index t"
        then have "current_index t < ?k" by simp
        then have "?P (game_notes t ! current_index t)"
          by (metis nth_mem set_takeWhileD takeWhile_nth)
        with False n show False by simp
      qed
      with "1.prems"(2) have "current_index t = ?k" by simp
      with False Some "1.prems" show ?thesis by (subst (asm) timeline_track.simps) simp
    next
      case True
      from "1.prems"(1) Some True obtain v1 where
        nt: "timeline_note tpm ti n v = Inr v1"
        and rest: "timeline_track tpm tick ti (increment_index t) v1 = Inr (t', v')"
        by (subst (asm) timeline_track.simps) (auto split: sum.splits)
      note nf = timeline_note_fields [OF nt]
      have gn: "game_notes (increment_index t) = game_notes t"
        by (simp add: increment_index_def)
      have "\<And>i. i < Suc (current_index t) \<Longrightarrow> ?P (game_notes t ! i)"
      proof -
        fix i assume i: "i < Suc (current_index t)"
        show "?P (game_notes t ! i)"
        proof (cases "i = current_index t")
          case True
          with \<open>get_position n \<le> tick\<close> n show ?thesis by simp
        next
          case False
          with i "1.prems"(2) have "i < ?k" by simp
          then show ?thesis by (metis nth_mem set_takeWhileD takeWhile_nth)
        qed
      qed
      then have "Suc (current_index t) \<le> ?k"
        using lt by (intro length_takeWhile_less_P_nth) simp_all
      then have c1: "current_index (increment_index t)
                       \<le> length (takeWhile ?P (game_notes (increment_index t)))"
        by (simp add: increment_index_def)
      from nf have step: "case tempo_of (ptnote n) of
           None \<Rightarrow> sweep_tempo v1 = sweep_tempo v
                    \<and> sweep_tick_interval_millis v1 = sweep_tick_interval_millis v
         | Some x \<Rightarrow> sweep_tempo v1 = x
                    \<and> interval_of tpm x = Inr (sweep_tick_interval_millis v1)" by simp
      from tempo_recorded_step [OF "1.prems"(3) step]
      have r1: "tempo_recorded tpm (A \<union> seen_tempos (increment_index t)) (sweep_tempo v1)
                  (sweep_tick_interval_millis v1)"
        by (simp add: seen_tempos_increment [OF Some])
      note ih = "1.IH" [OF Some True nt rest c1 r1]
      have nn: "fle (Finite 0) (sweep_tick_interval_millis v1)"
        if "positive_tempos (map ptnote (game_notes t))"
           "fle (Finite 0) (sweep_tick_interval_millis v)"
        using positive_note_interval [OF positive_tempos_head [OF that(1) Some] that(2) step] .
      from ih nf gn nn show ?thesis by auto
    qed
  qed
qed

lemma tracks_seen_tempos_Cons:
  "tracks_seen_tempos (x # trs) = seen_tempos (snd x) \<union> tracks_seen_tempos trs"
  by (simp add: tracks_seen_tempos_def)

lemma timeline_tracks_fields:
  "timeline_tracks tpm tick trs v = Inr (trs', v') \<Longrightarrow>
   cursors_within tick trs \<Longrightarrow>
   tempo_recorded tpm (A \<union> tracks_seen_tempos trs) (sweep_tempo v) (sweep_tick_interval_millis v) \<Longrightarrow>
     map fst trs' = map fst trs
     \<and> map (\<lambda>x. game_notes (snd x)) trs' = map (\<lambda>x. game_notes (snd x)) trs
     \<and> cursors_at tick trs'
     \<and> tempo_recorded tpm (A \<union> tracks_seen_tempos trs') (sweep_tempo v')
         (sweep_tick_interval_millis v')
     \<and> sweep_played_millis v' = sweep_played_millis v
     \<and> sweep_tempos_per_tick v' = sweep_tempos_per_tick v
     \<and> sweep_played_millis_per_tick v' = sweep_played_millis_per_tick v
     \<and> sweep_tick_interval_millis_per_tick v' = sweep_tick_interval_millis_per_tick v
     \<and> (tracks_positive_tempos trs \<and> fle (Finite 0) (sweep_tick_interval_millis v)
          \<longrightarrow> fle (Finite 0) (sweep_tick_interval_millis v'))"
proof (induction trs arbitrary: v trs' A)
  case Nil
  then show ?case by (simp add: cursors_at_def)
next
  case (Cons x trs)
  obtain ti t where x: "x = (ti, t)" by (cases x)
  from Cons.prems(1) x obtain t1 v1 rest' where
    tr: "timeline_track tpm tick ti t v = Inr (t1, v1)"
    and rest: "timeline_tracks tpm tick trs v1 = Inr (rest', v')"
    and trs': "trs' = (ti, t1) # rest'"
    by (auto split: sum.splits)
  from Cons.prems(2) x have c: "current_index t
        \<le> length (takeWhile (\<lambda>n. get_position n \<le> tick) (game_notes t))"
    and cr: "cursors_within tick trs"
    by (simp_all add: cursors_within_def length_processed_notes)
  from Cons.prems(3) x have
    "tempo_recorded tpm ((A \<union> tracks_seen_tempos trs) \<union> seen_tempos t) (sweep_tempo v)
       (sweep_tick_interval_millis v)"
    by (simp add: tracks_seen_tempos_Cons Un_ac)
  note tf = timeline_track_fields [OF tr c this]
  from tf have "tempo_recorded tpm ((A \<union> seen_tempos t1) \<union> tracks_seen_tempos trs)
                  (sweep_tempo v1) (sweep_tick_interval_millis v1)"
    by (simp add: Un_ac)
  note ih = Cons.IH [OF rest cr this]
  from ih have "tempo_recorded tpm (A \<union> tracks_seen_tempos trs') (sweep_tempo v')
                  (sweep_tick_interval_millis v')"
    by (simp add: trs' tracks_seen_tempos_Cons Un_ac)
  moreover from tf ih have "cursors_at tick trs'"
    by (simp add: trs' cursors_at_def length_processed_notes)
  ultimately show ?case
    using ih tf x trs' by (auto simp: tracks_positive_tempos_def)
qed

lemma length_processed_notes_Suc:
  "length (processed_notes t ns) \<le> length (processed_notes (Suc t) ns)"
  by (induction ns) (simp_all add: processed_notes_def)

lemma cursors_at_within: "cursors_at t trs \<Longrightarrow> cursors_within (Suc t) trs"
  by (auto simp: cursors_at_def cursors_within_def list_all_iff length_processed_notes_Suc)

lemma seen_tempos_at:
  assumes "current_index t = length (processed_notes tick (map ptnote (game_notes t)))"
  shows "seen_tempos t
           = set (List.map_filter tempo_of (processed_notes tick (map ptnote (game_notes t))))"
proof -
  let ?P = "\<lambda>n. get_position n \<le> tick"
  from assms have "take (current_index t) (game_notes t) = takeWhile ?P (game_notes t)"
    by (simp add: length_processed_notes takeWhile_eq_take [symmetric])
  then show ?thesis by (simp add: seen_tempos_def processed_notes_map)
qed

lemma tracks_seen_tempos_at:
  "cursors_at tick trs \<Longrightarrow> tracks_seen_tempos trs = chart_seen_tempos (track_ptnotes trs) tick"
  by (auto simp: cursors_at_def list_all_iff tracks_seen_tempos_def chart_seen_tempos_def
      track_ptnotes_def seen_tempos_at)

lemma track_ptnotes_cong:
  "map (\<lambda>x. game_notes (snd x)) trs' = map (\<lambda>x. game_notes (snd x)) trs \<Longrightarrow>
     track_ptnotes trs' = track_ptnotes trs"
proof -
  assume a: "map (\<lambda>x. game_notes (snd x)) trs' = map (\<lambda>x. game_notes (snd x)) trs"
  have "track_ptnotes ys = map (map ptnote) (map (\<lambda>x. game_notes (snd x)) ys)" for ys
    by (simp add: track_ptnotes_def comp_def)
  then show ?thesis by (simp only: a)
qed

lemma tracks_positive_tempos_cong:
  "track_ptnotes trs' = track_ptnotes trs \<Longrightarrow>
     tracks_positive_tempos trs' = tracks_positive_tempos trs"
proof -
  assume a: "track_ptnotes trs' = track_ptnotes trs"
  have "tracks_positive_tempos ys = list_all positive_tempos (track_ptnotes ys)" for ys
    by (simp add: tracks_positive_tempos_def track_ptnotes_def list_all_iff case_prod_unfold)
  with a show ?thesis by simp
qed

lemma timeline_tick_inv:
  assumes tick: "timeline_tick tpm cursor_tick trs v = Inr (trs', v')"
      and inv: "timeline_inv tpm (chart_seen_tempos (track_ptnotes trs)) v"
      and len: "length (sweep_played_millis_per_tick v) = cursor_tick"
      and cw: "cursors_within cursor_tick trs"
      and rec: "tempo_recorded tpm (tracks_seen_tempos trs) (sweep_tempo v)
                  (sweep_tick_interval_millis v)"
  shows "timeline_inv tpm (chart_seen_tempos (track_ptnotes trs)) v'
       \<and> length (sweep_played_millis_per_tick v') = Suc cursor_tick
       \<and> track_ptnotes trs' = track_ptnotes trs
       \<and> cursors_within (Suc cursor_tick) trs'
       \<and> tempo_recorded tpm (tracks_seen_tempos trs') (sweep_tempo v')
           (sweep_tick_interval_millis v')
       \<and> (tracks_positive_tempos trs \<and> intervals_nonneg v \<longrightarrow> intervals_nonneg v')"
proof -
  let ?v1 = "v\<lparr>sweep_played_millis :=
                 fadd (sweep_played_millis v) (sweep_tick_interval_millis v)\<rparr>"
  let ?seen = "chart_seen_tempos (track_ptnotes trs)"
  from tick obtain v2 where
    trs: "timeline_tracks tpm cursor_tick trs ?v1 = Inr (trs', v2)"
    and v': "v' = v2\<lparr>sweep_tempos_per_tick := sweep_tempos_per_tick v2 @ [sweep_tempo v2],
                   sweep_played_millis_per_tick :=
                     sweep_played_millis_per_tick v2 @ [sweep_played_millis v2],
                   sweep_tick_interval_millis_per_tick :=
                     sweep_tick_interval_millis_per_tick v2 @ [sweep_tick_interval_millis v2]\<rparr>"
    by (auto simp: timeline_tick_def Let_def bindE_Inr_iff)
  from rec have rec1: "tempo_recorded tpm ({} \<union> tracks_seen_tempos trs) (sweep_tempo ?v1)
                         (sweep_tick_interval_millis ?v1)" by simp
  note f = timeline_tracks_fields [OF trs cw rec1]
  let ?P = "sweep_played_millis_per_tick v"
  let ?I = "sweep_tick_interval_millis_per_tick v"
  let ?T = "sweep_tempos_per_tick v"
  from f have eq:
    "sweep_played_millis v2 = fadd (sweep_played_millis v) (sweep_tick_interval_millis v)"
    "sweep_tempos_per_tick v2 = ?T" "sweep_played_millis_per_tick v2 = ?P"
    "sweep_tick_interval_millis_per_tick v2 = ?I"
    by simp_all
  from f have pn: "track_ptnotes trs' = track_ptnotes trs"
    by (intro track_ptnotes_cong) simp
  from f have at: "cursors_at cursor_tick trs'" by simp
  from f have rec2: "tempo_recorded tpm (tracks_seen_tempos trs') (sweep_tempo v2)
                       (sweep_tick_interval_millis v2)" by simp
  with tracks_seen_tempos_at [OF at] pn
  have new: "tempo_recorded tpm (?seen cursor_tick) (sweep_tempo v2) (sweep_tick_interval_millis v2)"
    by simp
  from inv have ilen: "length ?T = length ?P" "length ?I = length ?P"
    and oks: "\<And>i. i < length ?P \<Longrightarrow> tempo_recorded tpm (?seen i) (?T ! i) (?I ! i)"
    and step: "\<And>i. Suc i < length ?P \<Longrightarrow> ?P ! Suc i = fadd (?P ! i) (?I ! i)"
    and empty: "?P = [] \<Longrightarrow> sweep_played_millis v = Finite 0
                    \<and> sweep_tick_interval_millis v = Finite 0"
    and nonempty: "?P \<noteq> [] \<Longrightarrow> ?P ! 0 = Finite 0 \<and> last ?P = sweep_played_millis v
                     \<and> last ?I = sweep_tick_interval_millis v"
    by (simp_all add: timeline_inv_def)
  have oks': "tempo_recorded tpm (?seen i) ((?T @ [sweep_tempo v2]) ! i)
                ((?I @ [sweep_tick_interval_millis v2]) ! i)"
    if "i < Suc (length ?P)" for i
  proof (cases "i < length ?P")
    case True
    with oks [OF True] ilen show ?thesis by (simp add: nth_append)
  next
    case False
    with that have "i = length ?P" by simp
    with new len ilen show ?thesis by (simp add: nth_append)
  qed
  have step': "(?P @ [sweep_played_millis v2]) ! Suc i =
                 fadd ((?P @ [sweep_played_millis v2]) ! i)
                   ((?I @ [sweep_tick_interval_millis v2]) ! i)"
    if "Suc i < Suc (length ?P)" for i
  proof (cases "Suc i < length ?P")
    case True
    with step [OF True] ilen show ?thesis by (simp add: nth_append)
  next
    case False
    with that have i: "Suc i = length ?P" by simp
    then have ne: "?P \<noteq> []" "?I \<noteq> []" using ilen by auto
    from i have li: "length ?P = Suc i" by simp
    have "last ?P = ?P ! i" "last ?I = ?I ! i"
      using ilen ne li by (simp_all add: last_conv_nth)
    with nonempty [OF ne(1)] i ilen eq(1) show ?thesis
      by (simp add: nth_append)
  qed
  have zero': "(?P @ [sweep_played_millis v2]) ! 0 = Finite 0"
  proof (cases "?P = []")
    case True
    with empty eq(1) show ?thesis by (simp add: round_double_0)
  next
    case False
    with nonempty show ?thesis by (simp add: nth_append)
  qed
  have inv': "timeline_inv tpm ?seen v'"
    unfolding timeline_inv_def v'
    using ilen oks' step' zero' by (simp add: eq)
  have nn: "intervals_nonneg v'" if "tracks_positive_tempos trs" "intervals_nonneg v"
  proof -
    from that f have a: "fle (Finite 0) (sweep_tick_interval_millis v2)"
      by (simp add: intervals_nonneg_def)
    from that(2) have "nonneg_double (sweep_played_millis v)"
      "fle (Finite 0) (sweep_tick_interval_millis v)"
      by (simp_all add: intervals_nonneg_def)
    from fadd_nonneg_double [OF this] have "nonneg_double (sweep_played_millis v2)"
      by (simp add: eq)
    with a that(2) show ?thesis
      by (simp add: intervals_nonneg_def v' eq)
  qed
  from inv' nn pn at rec2 len show ?thesis
    by (simp add: v' eq cursors_at_within)
qed

lemma timeline_loop_inv:
  "timeline_loop tpm remaining cursor_tick trs v = Inr (trs', v') \<Longrightarrow>
   timeline_inv tpm (chart_seen_tempos (track_ptnotes trs)) v \<Longrightarrow>
   length (sweep_played_millis_per_tick v) = cursor_tick \<Longrightarrow>
   cursors_within cursor_tick trs \<Longrightarrow>
   tempo_recorded tpm (tracks_seen_tempos trs) (sweep_tempo v) (sweep_tick_interval_millis v) \<Longrightarrow>
     timeline_inv tpm (chart_seen_tempos (track_ptnotes trs)) v'
     \<and> length (sweep_played_millis_per_tick v') = cursor_tick + remaining
     \<and> (tracks_positive_tempos trs \<and> intervals_nonneg v \<longrightarrow> intervals_nonneg v')"
proof (induction remaining arbitrary: cursor_tick trs v)
  case 0
  then show ?case by simp
next
  case (Suc remaining)
  from Suc.prems(1) obtain trs1 v1 where
    t: "timeline_tick tpm cursor_tick trs v = Inr (trs1, v1)"
    and l: "timeline_loop tpm remaining (cursor_tick + 1) trs1 v1 = Inr (trs', v')"
    by (auto split: sum.splits)
  note ti = timeline_tick_inv [OF t Suc.prems(2-5)]
  from ti have pn: "track_ptnotes trs1 = track_ptnotes trs" by simp
  from ti have a: "timeline_inv tpm (chart_seen_tempos (track_ptnotes trs1)) v1"
    "length (sweep_played_millis_per_tick v1) = cursor_tick + 1"
    "cursors_within (cursor_tick + 1) trs1"
    "tempo_recorded tpm (tracks_seen_tempos trs1) (sweep_tempo v1)
       (sweep_tick_interval_millis v1)"
    by (simp_all add: pn)
  note ih = Suc.IH [OF l a]
  from ih ti tracks_positive_tempos_cong [OF pn] show ?case by (simp add: pn)
qed

lemma init_notes_ptnote:
  "init_notes sound_table ttype ns = Inr gs \<Longrightarrow> map ptnote gs = ns"
proof (induction ns arbitrary: gs)
  case Nil
  then show ?case by simp
next
  case (Cons n ns)
  from Cons.prems obtain g gs' where
    g: "GameNote_init sound_table ttype n = Inr g"
    and r: "init_notes sound_table ttype ns = Inr gs'" and gs: "gs = g # gs'"
    by (auto split: sum.splits)
  from g have "ptnote g = n"
    by (auto simp: GameNote_init_def Let_def
             split: PTFileNoteParams.splits option.splits if_splits)
  with Cons.IH [OF r] gs show ?case by simp
qed

lemma init_tracks_notes:
  "init_tracks sound_table eff = Inr trs \<Longrightarrow>
     map fst trs = map fst eff
     \<and> track_ptnotes trs = map (\<lambda>x. track_notes (snd x)) eff
     \<and> list_all (\<lambda>x. current_index (snd x) = 0) trs"
proof (induction eff arbitrary: trs)
  case Nil
  then show ?case by (simp add: track_ptnotes_def)
next
  case (Cons x eff)
  obtain ti tr where x: "x = (ti, tr)" by (cases x)
  from Cons.prems x obtain t ts where
    t: "GameTrack_init sound_table (get_track_type ti) tr = Inr t"
    and r: "init_tracks sound_table eff = Inr ts" and trs: "trs = (ti, t) # ts"
    by (auto split: sum.splits)
  from t have "map ptnote (game_notes t) = track_notes tr" "current_index t = 0"
    by (auto simp: GameTrack_init_def bindE_Inr_iff dest: init_notes_ptnote)
  with Cons.IH [OF r] x trs show ?case by (simp add: track_ptnotes_def)
qed

lemma set_unit_judge_millis_tracks:
  "track_ptnotes (map (\<lambda>(track_index, t). (track_index, GameTrack_set_unit_judge_millis u t)) trs)
     = track_ptnotes trs"
  "list_all (\<lambda>x. current_index (snd x) = 0)
     (map (\<lambda>(track_index, t). (track_index, GameTrack_set_unit_judge_millis u t)) trs)
     = list_all (\<lambda>x. current_index (snd x) = 0) trs"
  by (simp_all add: track_ptnotes_def GameTrack_set_unit_judge_millis_def comp_def
      case_prod_unfold list_all_iff)

lemma fresh_tracks:
  assumes "list_all (\<lambda>x. current_index (snd x) = 0) trs"
  shows "cursors_within 0 trs" "tracks_seen_tempos trs = {}"
  using assms
  by (auto simp: cursors_within_def tracks_seen_tempos_def seen_tempos_def list_all_iff
      List.map_filter_def)

lemma timeline_start_inv:
  "timeline_inv tpm seen timeline_start" "intervals_nonneg timeline_start"
  "sweep_played_millis_per_tick timeline_start = []"
  "sweep_tempo timeline_start = Finite 0" "sweep_tick_interval_millis timeline_start = Finite 0"
  by (simp_all add: timeline_inv_def intervals_nonneg_def timeline_start_def nonneg_double_def
      round_double_0)

lemma processed_tempos_seen:
  "set (processed_tempos ptfile t)
     = chart_seen_tempos (map (\<lambda>x. track_notes (snd x)) (effective_tracks (tracks ptfile))) t"
  by (auto simp: processed_tempos_def chart_seen_tempos_def)

lemma effective_tracks_subset:
  "(ti, tr) \<in> set (effective_tracks trs) \<Longrightarrow> tr \<in> set trs"
  by (auto simp: effective_tracks_def dest: set_zip_rightD)

lemma loaded_tracks_positive:
  assumes pos: "list_all (\<lambda>tr. positive_tempos (track_notes tr)) trs"
      and pn: "track_ptnotes trs1 = map (\<lambda>x. track_notes (snd x)) (effective_tracks trs)"
  shows "tracks_positive_tempos trs1"
proof -
  have "tracks_positive_tempos trs1 = list_all positive_tempos (track_ptnotes trs1)"
    by (simp add: tracks_positive_tempos_def track_ptnotes_def list_all_iff case_prod_unfold)
  also have "\<dots>" unfolding pn using pos
    by (auto simp: list_all_iff dest: effective_tracks_subset)
  finally show ?thesis .
qed

text \<open>
  Claim C2, as stated, at a chart of three ticks whose only note is a tempo note at
  tick 1.  With the tempo -125: at tick 0 the recorded tempo and interval are both 0, and
  \<open>240000 / ticksPerMeasure / 0\<close> is a division by zero, not 0; from tick 1 on the
  interval is -4, and the played milliseconds decrease from tick 1 to tick 2.  With the
  tempo NaN (the bytes \<open>00 00 C0 7F\<close> of the file): the recorded interval is NaN, which is
  not \<open>==\<close> to the value of \<open>240000 / ticksPerMeasure / tempo\<close>, NaN again, and the played
  milliseconds of tick 2 are NaN, which is not \<open>>=\<close> those of tick 1.
\<close>

theorem C2_late_tempo_counterexample:
  "timeline_of (open_ptfile example_sound_table (example_tempo_ptfile (Finite (- 125)))
                  example_player example_score)
     = Inr ([Finite 0, Finite (- 125), Finite (- 125)],
            [Finite 0, Finite 0, Finite (- 4)],
            [Finite 0, Finite (- 4), Finite (- 4)])
   \<and> interval_of 480 (Finite 0) = Inl ZeroDivisionError
   \<and> \<not> fle (Finite 0) (Finite (- 4))
   \<and> float_of_bits 0x7FC00000 = NaN
   \<and> timeline_of (open_ptfile example_sound_table (example_tempo_ptfile NaN)
                  example_player example_score)
     = Inr ([Finite 0, NaN, NaN], [Finite 0, Finite 0, NaN], [Finite 0, NaN, NaN])
   \<and> interval_of 480 NaN = Inr NaN
   \<and> \<not> feq NaN NaN
   \<and> \<not> fle (Finite 0) NaN"
proof (intro conjI)
  show "timeline_of (open_ptfile example_sound_table (example_tempo_ptfile (Finite (- 125)))
                  example_player example_score)
     = Inr ([Finite 0, Finite (- 125), Finite (- 125)],
            [Finite 0, Finite 0, Finite (- 4)],
            [Finite 0, Finite (- 4), Finite (- 4)])"
    by code_simp
  show "interval_of 480 (Finite 0) = Inl ZeroDivisionError"
    by (simp add: interval_of_def float_of_int_def round_double_int)
  show "float_of_bits 0x7FC00000 = NaN"
    by (simp add: float_of_bits_def Let_def)
  show "timeline_of (open_ptfile example_sound_table (example_tempo_ptfile NaN)
                  example_player example_score)
     = Inr ([Finite 0, NaN, NaN], [Finite 0, Finite 0, NaN], [Finite 0, NaN, NaN])"
    by code_simp
  show "interval_of 480 NaN = Inr NaN"
    by (simp add: interval_of_def float_of_int_def round_double_int)
qed (simp_all add: feq_def)

text \<open>
  Claim C2, amended.  After \<open>open_ptfile\<close> has completed, the three per-tick arrays have
  length \<open>totalTicks\<close>.  For every tick \<open>t\<close>: if no tempo note has been processed by the end
  of tick \<open>t\<close>, \<open>tempoPerTick[t]\<close> and \<open>tickIntervalMillisPerTick[t]\<close> are both 0; otherwise
  \<open>tempoPerTick[t]\<close> is the tempo of a processed tempo note and
  \<open>tickIntervalMillisPerTick[t]\<close> is the double that \<open>240000 / ticksPerMeasure /
  tempoPerTick[t]\<close> evaluates to, and the two compare equal unless the tempo is NaN.  The
  played milliseconds start at 0 and each tick adds the previous tick's interval in
  floating point: \<open>playedMillisPerTick[t + 1] = playedMillisPerTick[t] +
  tickIntervalMillisPerTick[t]\<close>.  If every tempo note of the chart has a positive tempo,
  \<open>playedMillisPerTick\<close> is non-decreasing.
\<close>

theorem C2_timeline:
  assumes "open_ptfile sound_table ptfile s p = Inr (s', p')"
  shows "total_ticks s' = header_total_ticks (header ptfile)
       \<and> length (tempos_per_tick s') = total_ticks s'
       \<and> length (player_played_millis_per_tick s') = total_ticks s'
       \<and> length (tick_interval_millis_per_tick s') = total_ticks s'
       \<and> (\<forall>t < total_ticks s'.
             tempo_recorded (ticks_per_measure s') (set (processed_tempos ptfile t))
               (tempos_per_tick s' ! t) (tick_interval_millis_per_tick s' ! t))
       \<and> (\<forall>t < total_ticks s'.
             processed_tempos ptfile t \<noteq> [] \<and> tempos_per_tick s' ! t \<noteq> NaN \<longrightarrow>
               (\<exists>w. interval_of (ticks_per_measure s') (tempos_per_tick s' ! t) = Inr w
                  \<and> feq (tick_interval_millis_per_tick s' ! t) w))
       \<and> (\<forall>t. Suc t < total_ticks s' \<longrightarrow>
             player_played_millis_per_tick s' ! Suc t =
               fadd (player_played_millis_per_tick s' ! t) (tick_interval_millis_per_tick s' ! t))
       \<and> (0 < total_ticks s' \<longrightarrow> player_played_millis_per_tick s' ! 0 = Finite 0)
       \<and> (list_all (\<lambda>tr. positive_tempos (track_notes tr)) (tracks ptfile) \<longrightarrow>
             (\<forall>t. Suc t < total_ticks s' \<longrightarrow>
                fle (player_played_millis_per_tick s' ! t)
                  (player_played_millis_per_tick s' ! Suc t)))"
proof -
  let ?eff = "effective_tracks (tracks ptfile)"
  let ?tpm = "header_ticks_per_measure (header ptfile)"
  from open_ptfile_result [OF assms] obtain trs0 trs2 v where
    "open_ptfile_facts sound_table ptfile s s' trs0 trs2 v"
    by blast
  then have
    init: "init_tracks sound_table ?eff = Inr trs0"
    and loop: "timeline_loop ?tpm (header_total_ticks (header ptfile)) 0
               (map (\<lambda>(track_index, t).
                      (track_index,
                       GameTrack_set_unit_judge_millis (player_unit_judge_millis s) t)) trs0)
               timeline_start = Inr (trs2, v)"
    and f: "tempos_per_tick s' = sweep_tempos_per_tick v"
       "player_played_millis_per_tick s' = sweep_played_millis_per_tick v"
       "tick_interval_millis_per_tick s' = sweep_tick_interval_millis_per_tick v"
       "total_ticks s' = header_total_ticks (header ptfile)"
       "ticks_per_measure s' = ?tpm"
    by (simp_all add: open_ptfile_facts_def)
  let ?trs1 = "map (\<lambda>(track_index, t).
                 (track_index, GameTrack_set_unit_judge_millis (player_unit_judge_millis s) t)) trs0"
  let ?P = "sweep_played_millis_per_tick v"
  let ?I = "sweep_tick_interval_millis_per_tick v"
  let ?T = "sweep_tempos_per_tick v"
  from init_tracks_notes [OF init] have
    pn: "track_ptnotes ?trs1 = map (\<lambda>x. track_notes (snd x)) ?eff"
    and fresh: "list_all (\<lambda>x. current_index (snd x) = 0) ?trs1"
    by (simp_all add: set_unit_judge_millis_tracks)
  have seen: "chart_seen_tempos (track_ptnotes ?trs1) t = set (processed_tempos ptfile t)" for t
    by (simp add: pn processed_tempos_seen)
  have rec0: "tempo_recorded ?tpm (tracks_seen_tempos ?trs1) (sweep_tempo timeline_start)
                (sweep_tick_interval_millis timeline_start)"
    by (simp add: fresh_tracks(2) [OF fresh] timeline_start_inv tempo_recorded_def)
  have len0: "length (sweep_played_millis_per_tick timeline_start) = 0"
    by (simp add: timeline_start_inv)
  note li = timeline_loop_inv [OF loop timeline_start_inv(1) len0 fresh_tracks(1) [OF fresh] rec0]
  from li have inv: "timeline_inv ?tpm (chart_seen_tempos (track_ptnotes ?trs1)) v"
    and len: "length ?P = total_ticks s'"
    by (simp_all add: f)
  from inv have ilen: "length ?T = length ?P" "length ?I = length ?P"
    and oks: "\<And>i. i < length ?P \<Longrightarrow>
                tempo_recorded ?tpm (set (processed_tempos ptfile i)) (?T ! i) (?I ! i)"
    and step: "\<And>i. Suc i < length ?P \<Longrightarrow> ?P ! Suc i = fadd (?P ! i) (?I ! i)"
    and zero: "?P \<noteq> [] \<Longrightarrow> ?P ! 0 = Finite 0"
    by (simp_all add: timeline_inv_def seen)
  have eqs: "\<exists>w. interval_of ?tpm (?T ! i) = Inr w \<and> feq (?I ! i) w"
    if "i < length ?P" "processed_tempos ptfile i \<noteq> []" "?T ! i \<noteq> NaN" for i
  proof -
    from oks [OF that(1)] that(2) have w: "interval_of ?tpm (?T ! i) = Inr (?I ! i)"
      by (simp add: tempo_recorded_def)
    from interval_of_not_NaN [OF w that(3)] w show ?thesis by (simp add: feq_def)
  qed
  have srt: "fle (?P ! i) (?P ! Suc i)"
    if pos: "list_all (\<lambda>tr. positive_tempos (track_notes tr)) (tracks ptfile)"
      and i: "Suc i < length ?P" for i
  proof -
    from li loaded_tracks_positive [OF pos pn] timeline_start_inv(2)
    have nn: "intervals_nonneg v" by simp
    with i ilen have "nonneg_double (?P ! i)" "fle (Finite 0) (?I ! i)"
      by (simp_all add: intervals_nonneg_def list_all_length)
    from fadd_nonneg_double [OF this] step [OF i] show ?thesis by simp
  qed
  have zero': "?P ! 0 = Finite 0" if "0 < length ?P"
    using zero that by auto
  from ilen len oks eqs step zero' srt show ?thesis
    unfolding f by auto
qed

lemma example_ptfile_positive:
  "list_all (\<lambda>tr. positive_tempos (track_notes tr)) (tracks example_ptfile)"
  by code_simp

lemma example_ptfile_tempos:
  "processed_tempos example_ptfile 0 = [Finite 125]"
  "processed_tempos example_ptfile 2 = [Finite 125]"
  by code_simp+

theorem C2_timeline_witness:
  "list_all (\<lambda>tr. positive_tempos (track_notes tr)) (tracks example_ptfile)
   \<and> (\<exists>s' p'. open_ptfile example_sound_table example_ptfile example_player example_score
                 = Inr (s', p')
         \<and> length (tempos_per_tick s') = 4
         \<and> length (player_played_millis_per_tick s') = 4
         \<and> length (tick_interval_millis_per_tick s') = 4
         \<and> tempos_per_tick s' ! 2 = Finite 125
         \<and> tick_interval_millis_per_tick s' ! 2 = Finite 4
         \<and> player_played_millis_per_tick s' ! 0 = Finite 0
         \<and> player_played_millis_per_tick s' ! 1 = Finite 4
         \<and> fle (player_played_millis_per_tick s' ! 1) (player_played_millis_per_tick s' ! 2))"
proof -
  note pos = example_ptfile_positive
  have total: "header_total_ticks (header example_ptfile) = 4"
    "header_ticks_per_measure (header example_ptfile) = 480"
    by (simp_all add: example_ptfile_def)
  obtain s' p' where o: "open_ptfile example_sound_table example_ptfile example_player
                           example_score = Inr (s', p')"
    using example_ptfile_loads
    by (cases "open_ptfile example_sound_table example_ptfile example_player example_score")
       auto
  from open_ptfile_result [OF o] have tpm: "ticks_per_measure s' = 480"
    by (auto simp: open_ptfile_facts_def total)
  have iv: "interval_of 480 (Finite 125) = Inr (Finite 4)"
    by (simp add: interval_of_def float_of_int_def round_double_int)
  note c2 = C2_timeline [OF o]
  from c2 total have len: "total_ticks s' = 4" "length (tempos_per_tick s') = 4"
    "length (player_played_millis_per_tick s') = 4"
    "length (tick_interval_millis_per_tick s') = 4" by simp_all
  from c2 len have r: "tempo_recorded 480 (set (processed_tempos example_ptfile 0))
                         (tempos_per_tick s' ! 0) (tick_interval_millis_per_tick s' ! 0)"
    "tempo_recorded 480 (set (processed_tempos example_ptfile 2))
                         (tempos_per_tick s' ! 2) (tick_interval_millis_per_tick s' ! 2)"
    by (simp_all add: tpm)
  from r iv have t: "tick_interval_millis_per_tick s' ! 0 = Finite 4"
    "tempos_per_tick s' ! 2 = Finite 125" "tick_interval_millis_per_tick s' ! 2 = Finite 4"
    by (auto simp: example_ptfile_tempos tempo_recorded_def)
  from c2 len have p0: "player_played_millis_per_tick s' ! 0 = Finite 0" by simp
  from c2 have stp: "\<And>t. Suc t < total_ticks s' \<Longrightarrow>
      player_played_millis_per_tick s' ! Suc t =
        fadd (player_played_millis_per_tick s' ! t) (tick_interval_millis_per_tick s' ! t)"
    by blast
  from stp [of 0] len have "player_played_millis_per_tick s' ! Suc 0 =
      fadd (player_played_millis_per_tick s' ! 0) (tick_interval_millis_per_tick s' ! 0)"
    by simp
  with p0 t have p1: "player_played_millis_per_tick s' ! 1 = Finite 4"
    by (simp add: round_double_int)
  from c2 pos have srt: "\<And>t. Suc t < total_ticks s' \<Longrightarrow>
      fle (player_played_millis_per_tick s' ! t) (player_played_millis_per_tick s' ! Suc t)"
    by blast
  from srt [of 1] len
  have s12: "fle (player_played_millis_per_tick s' ! 1) (player_played_millis_per_tick s' ! 2)"
    by (simp add: numeral_2_eq_2)
  from pos o len t p0 p1 s12 show ?thesis by blast
qed


end
